theory Spec2Isabelle
  imports Main "HOL-Library.Word"
begin

section \<open>Go values shared by the reader and the resolver\<close>

type_synonym byte = "8 word"

text \<open>
  Go errors.  \<open>nil\<close> is \<open>None\<close> of \<open>go_error option\<close>.  \<open>Errorf fmt args\<close> is
  \<^verbatim>\<open>fmt.Errorf(fmt, args...)\<close> and \<open>Wrapped e fmt args\<close> is what
  \<^verbatim>\<open>errors.Wrapf(e, fmt, args...)\<close> of github.com/pkg/errors builds around a
  non-nil \<open>e\<close>; the format string and its arguments are kept as they are passed, the
  rendering of the message is not needed.
\<close>

datatype fmt_arg = ArgS string | ArgI int | ArgE "go_error option"
  and go_error =
      EOF
    | ErrUnexpectedEOF
    | Errorf string "fmt_arg list"
    | Wrapped go_error string "fmt_arg list"

text \<open>\<^verbatim>\<open>errors.Wrapf\<close> and \<^verbatim>\<open>errors.Wrap\<close>: both return nil when the wrapped error is nil.\<close>

fun Wrapf :: "go_error option \<Rightarrow> string \<Rightarrow> fmt_arg list \<Rightarrow> go_error option" where
  "Wrapf None f args = None"
| "Wrapf (Some e) f args = Some (Wrapped e f args)"

definition Wrap :: "go_error option \<Rightarrow> string \<Rightarrow> go_error option" where
  "Wrap e msg = Wrapf e msg []"

text \<open>Arithmetic on \<^verbatim>\<open>int64\<close> wraps around: the value is read back in two's complement.\<close>

definition int64 :: "int \<Rightarrow> int" where
  "int64 x = sint (word_of_int x :: 64 word)"

text \<open>The verb \<^verbatim>\<open>%d\<close> of \<^verbatim>\<open>fmt\<close> on an integer: decimal, with a leading minus sign.\<close>

definition digit :: "nat \<Rightarrow> char" where
  "digit n = ''0123456789'' ! (n mod 10)"

fun digits :: "nat \<Rightarrow> string" where
  "digits n = (if n < 10 then [digit n] else digits (n div 10) @ [digit n])"

declare digits.simps [simp del]

definition fmt_d :: "int \<Rightarrow> string" where
  "fmt_d i = (if i < 0 then CHR ''-'' # digits (nat (- i)) else digits (nat i))"

section \<open>The stargz reader (package reader)\<close>

text \<open>
  The fields of \<^verbatim>\<open>stargz.TOCEntry\<close> that the reader uses, and the two queries of
  \<^verbatim>\<open>stargz.Reader\<close> (github.com/google/crfs) it calls.  The TOC parser is a library:
  both queries are parameters, \<open>None\<close> standing for \<^verbatim>\<open>ok == false\<close>.
\<close>

record TOCEntry =
  Digest :: string
  Offset :: int
  ChunkOffset :: int
  ChunkSize :: int

record stargz_Reader =
  Lookup :: "string \<Rightarrow> TOCEntry option"
  ChunkEntryForOffset :: "string \<Rightarrow> int \<Rightarrow> TOCEntry option"

text \<open>
  Modelled from the spec: the chunk cache \<^verbatim>\<open>cache.BlobCache\<close> is an interface of this
  repository outside the files at hand.  The spec gives its contract as
  \<^verbatim>\<open>fetch(id) -> bytes | miss\<close> and \<^verbatim>\<open>add(id, bytes)\<close>, where replacing an entry
  is permitted: a finite map from chunk IDs to byte strings, a miss being the error
  return of \<^verbatim>\<open>Fetch\<close>.
\<close>

type_synonym BlobCache = "string \<rightharpoonup> byte list"

definition Fetch :: "BlobCache \<Rightarrow> string \<Rightarrow> byte list option" where
  "Fetch c blobHash = c blobHash"

definition Add :: "BlobCache \<Rightarrow> string \<Rightarrow> byte list \<Rightarrow> BlobCache" where
  "Add c blobHash d = c(blobHash \<mapsto> d)"

text \<open>
  \<^verbatim>\<open>genID\<close>: the hexadecimal SHA-256 sum of \<^verbatim>\<open>"%s-%d-%d"\<close>.  The hash (sum, then
  \<^verbatim>\<open>%x\<close>) is the parameter \<open>H\<close>.
\<close>

definition genID :: "(string \<Rightarrow> string) \<Rightarrow> string \<Rightarrow> int \<Rightarrow> int \<Rightarrow> string" where
  "genID H dgst offset sz = H (dgst @ ''-'' @ fmt_d offset @ ''-'' @ fmt_d sz)"

text \<open>
  An \<^verbatim>\<open>io.ReaderAt\<close>: called with the length of the buffer and the offset, it gives
  the bytes it wrote at the front of the buffer and its error.  \<open>read_into\<close> is the buffer
  after the call on a fresh \<^verbatim>\<open>make([]byte, n)\<close>: never more than \<open>n\<close> bytes written,
  the rest still zero.
\<close>

type_synonym ReaderAt = "nat \<Rightarrow> int \<Rightarrow> byte list \<times> go_error option"

definition read_into :: "ReaderAt \<Rightarrow> nat \<Rightarrow> int \<Rightarrow> byte list \<times> go_error option" where
  "read_into rd n off =
     (let (bs, e) = rd n off; got = take n bs
      in (got @ replicate (n - length got) 0, e))"

record file' =
  name :: string
  digest :: string
  ra :: ReaderAt
  r :: stargz_Reader

text \<open>
  What a call returns: the count, the error, the caller's buffer and the cache as the
  call leaves them; or a run-time panic (\<^verbatim>\<open>make\<close> with a negative length, a slice
  bound out of range).
\<close>

datatype outcome = Returns int "go_error option" "byte list" BlobCache | Panic

datatype step = Break | Continue "nat \<times> byte list \<times> BlobCache" | Return outcome

text \<open>
  The cache probe \<^verbatim>\<open>data, err := cache.Fetch(id)\<close> with its test
  \<^verbatim>\<open>err != nil || len(data) != int(ce.ChunkSize)\<close>: \<open>None\<close> when the test holds
  (a miss), the cached bytes otherwise (a hit).
\<close>

definition cache_probe :: "BlobCache \<Rightarrow> string \<Rightarrow> int \<Rightarrow> byte list option" where
  "cache_probe c cid sz =
     (case Fetch c cid of
        None \<Rightarrow> None
      | Some data \<Rightarrow> if int (length data) \<noteq> sz then None else Some data)"

text \<open>
  Lines 331 to 341 of \<^verbatim>\<open>file.ReadAt\<close>: the chunk's bytes from the cache, or from
  the underlying reader and then into the cache.  \<open>Inl\<close> leaves the function.
\<close>

definition chunk_data ::
  "(string \<Rightarrow> string) \<Rightarrow> file' \<Rightarrow> BlobCache \<Rightarrow> byte list \<Rightarrow> TOCEntry \<Rightarrow> outcome + (byte list \<times> BlobCache)" where
  "chunk_data H sf c p ce =
     (let cid = genID H (digest sf) (ChunkOffset ce) (ChunkSize ce) in
      case cache_probe c cid (ChunkSize ce) of
        Some data \<Rightarrow> Inr (data, c)
      | None \<Rightarrow>
          (if ChunkSize ce < 0 then Inl Panic
           else case read_into (ra sf) (nat (ChunkSize ce)) (ChunkOffset ce) of
             (data, err) \<Rightarrow>
               if err \<noteq> None \<and> err \<noteq> Some EOF
               then Inl (Returns 0 (Wrap err ''failed to read data'') p c)
               else Inr (data, Add c cid data)))"

text \<open>
  One iteration of the loop of \<^verbatim>\<open>file.ReadAt\<close>, entered with \<open>nr < len(p)\<close>.
  \<open>k\<close> is the index \<^verbatim>\<open>offset+int64(nr)-ce.ChunkOffset\<close> at which \<open>data\<close> is sliced,
  \<open>n\<close> the result of \<^verbatim>\<open>copy\<close>.
\<close>

definition ReadAt_body ::
  "(string \<Rightarrow> string) \<Rightarrow> file' \<Rightarrow> int \<Rightarrow> nat \<times> byte list \<times> BlobCache \<Rightarrow> step" where
  "ReadAt_body H sf offset s =
     (case s of (nr, p, c) \<Rightarrow>
        (case ChunkEntryForOffset (r sf) (name sf) (int64 (offset + int nr)) of
           None \<Rightarrow> Break
         | Some ce \<Rightarrow>
             (case chunk_data H sf c p ce of
                Inl out \<Rightarrow> Return out
              | Inr (data, c') \<Rightarrow>
                  (let k = int64 (int64 (offset + int nr) - ChunkOffset ce) in
                   if k < 0 \<or> int (length data) < k then Return Panic
                   else
                     (let n = min (length p - nr) (length data - nat k)
                      in Continue (nr + n, take nr p @ take n (drop (nat k) data) @ drop (nr + n) p, c'))))))"

text \<open>
  The loop.  An iteration that copies nothing leaves the state as it is and the Go loop
  runs on: the fuel bounds the number of iterations and \<open>None\<close> is the call that has
  not returned within it.  After the loop, \<^verbatim>\<open>p = p[:nr]; return len(p), nil\<close>; the
  slice expression is checked here against the length of \<open>p\<close>, which the loop never
  exceeds.
\<close>

definition ReadAt_finish :: "nat \<times> byte list \<times> BlobCache \<Rightarrow> outcome" where
  "ReadAt_finish s =
     (case s of (nr, p, c) \<Rightarrow>
        if length p < nr then Panic else Returns (int (length (take nr p))) None p c)"

fun ReadAt_loop ::
  "nat \<Rightarrow> (string \<Rightarrow> string) \<Rightarrow> file' \<Rightarrow> int \<Rightarrow> nat \<times> byte list \<times> BlobCache \<Rightarrow> outcome option" where
  "ReadAt_loop fuel H sf offset (nr, p, c) =
     (if nr < length p then
        (case fuel of
           0 \<Rightarrow> None
         | Suc fuel' \<Rightarrow>
             (case ReadAt_body H sf offset (nr, p, c) of
                Break \<Rightarrow> Some (ReadAt_finish (nr, p, c))
              | Return out \<Rightarrow> Some out
              | Continue s' \<Rightarrow> ReadAt_loop fuel' H sf offset s'))
      else Some (ReadAt_finish (nr, p, c)))"

declare ReadAt_loop.simps [simp del]

definition ReadAt ::
  "nat \<Rightarrow> (string \<Rightarrow> string) \<Rightarrow> file' \<Rightarrow> BlobCache \<Rightarrow> byte list \<Rightarrow> int \<Rightarrow> outcome option" where
  "ReadAt fuel H sf c p offset = ReadAt_loop fuel H sf offset (0, p, c)"

subsection \<open>Specification vocabulary for \<^verbatim>\<open>file.ReadAt\<close>\<close>

text \<open>
  \<open>ReadAt_iter H sf offset s ns s'\<close>: from the loop state \<open>s\<close> the loop runs
  \<open>length ns\<close> full iterations and stands at \<open>s'\<close>; \<open>ns\<close> lists what \<^verbatim>\<open>copy\<close>
  returned in each of them.
\<close>

inductive ReadAt_iter ::
  "(string \<Rightarrow> string) \<Rightarrow> file' \<Rightarrow> int \<Rightarrow> nat \<times> byte list \<times> BlobCache \<Rightarrow> nat list
     \<Rightarrow> nat \<times> byte list \<times> BlobCache \<Rightarrow> bool"
  for H sf offset where
    iter_done: "ReadAt_iter H sf offset s [] s"
  | iter_step:
      "nr < length p \<Longrightarrow> ReadAt_body H sf offset (nr, p, c) = Continue (nr', p', c') \<Longrightarrow>
       ReadAt_iter H sf offset (nr', p', c') ns s'' \<Longrightarrow>
       ReadAt_iter H sf offset (nr, p, c) ((nr' - nr) # ns) s''"

text \<open>
  The true bytes of a chunk are what the underlying reader fills a fresh buffer of
  \<open>ChunkSize\<close> bytes with at \<open>ChunkOffset\<close>.  A cache is truthful for a file when every
  entry stored under the ID of one of the file's chunks holds exactly these bytes.
\<close>

definition chunk_bytes :: "file' \<Rightarrow> TOCEntry \<Rightarrow> byte list" where
  "chunk_bytes sf ce = fst (read_into (ra sf) (nat (ChunkSize ce)) (ChunkOffset ce))"

definition cache_truthful :: "(string \<Rightarrow> string) \<Rightarrow> file' \<Rightarrow> BlobCache \<Rightarrow> bool" where
  "cache_truthful H sf c =
     (\<forall>off ce d. ChunkEntryForOffset (r sf) (name sf) off = Some ce \<longrightarrow>
        Fetch c (genID H (digest sf) (ChunkOffset ce) (ChunkSize ce)) = Some d \<longrightarrow>
        d = chunk_bytes sf ce)"

text \<open>
  \<open>read_failed\<close>: the call returned an error, which for \<^verbatim>\<open>ReadAt\<close> is the failure of
  the underlying reader on a miss.  \<open>observed\<close>: what the caller sees of a call, that is
  the count, the error and the buffer (or the panic, or no return within the fuel).
\<close>

fun read_failed :: "outcome option \<Rightarrow> bool" where
  "read_failed (Some (Returns n (Some e) buf c)) = True"
| "read_failed x = False"

fun observed :: "outcome option \<Rightarrow> (int \<times> go_error option \<times> byte list) option option" where
  "observed None = None"
| "observed (Some Panic) = Some None"
| "observed (Some (Returns n e buf c)) = Some (Some (n, e, buf))"

text \<open>The bytes an iteration works with for a chunk: the cached ones on a hit, the true ones on a miss.\<close>

definition used :: "(string \<Rightarrow> string) \<Rightarrow> file' \<Rightarrow> BlobCache \<Rightarrow> TOCEntry \<Rightarrow> byte list" where
  "used H sf c ce =
     (case cache_probe c (genID H (digest sf) (ChunkOffset ce) (ChunkSize ce)) (ChunkSize ce) of
        Some d \<Rightarrow> d
      | None \<Rightarrow> chunk_bytes sf ce)"

definition agree :: "(string \<Rightarrow> string) \<Rightarrow> file' \<Rightarrow> BlobCache \<Rightarrow> BlobCache \<Rightarrow> bool" where
  "agree H sf c1 c2 =
     (\<forall>off ce. ChunkEntryForOffset (r sf) (name sf) off = Some ce \<longrightarrow>
        used H sf c1 ce = used H sf c2 ce)"

fun step_failed :: "step \<Rightarrow> bool" where
  "step_failed (Return (Returns n (Some e) buf c)) = True"
| "step_failed x = False"

text \<open>
  What \<^verbatim>\<open>copy(p[nr:], data[k:])\<close> writes in an iteration on the chunk \<open>ce\<close>: the bytes
  of the chunk, as the cache or else the underlying reader gives them, from the index
  \<open>k = offset + nr - ChunkOffset\<close> on, as many as \<open>p[nr:]\<close> has room for.
\<close>

definition copied ::
  "(string \<Rightarrow> string) \<Rightarrow> file' \<Rightarrow> int \<Rightarrow> nat \<times> byte list \<times> BlobCache \<Rightarrow> TOCEntry \<Rightarrow> byte list" where
  "copied H sf offset s ce =
     (case s of (nr, p, c) \<Rightarrow>
        take (length p - nr)
          (drop (nat (int64 (int64 (offset + int nr) - ChunkOffset ce))) (used H sf c ce)))"

text \<open>
  \<open>ReadAt_copies H sf offset s segs s'\<close>: as \<open>ReadAt_iter\<close>, with the bytes of the chunks
  that each of the iterations has to copy in the place of the counts.
\<close>

inductive ReadAt_copies ::
  "(string \<Rightarrow> string) \<Rightarrow> file' \<Rightarrow> int \<Rightarrow> nat \<times> byte list \<times> BlobCache \<Rightarrow> byte list list
     \<Rightarrow> nat \<times> byte list \<times> BlobCache \<Rightarrow> bool"
  for H sf offset where
    copies_done: "ReadAt_copies H sf offset s [] s"
  | copies_step:
      "nr < length p \<Longrightarrow> ReadAt_body H sf offset (nr, p, c) = Continue s' \<Longrightarrow>
       ChunkEntryForOffset (r sf) (name sf) (int64 (offset + int nr)) = Some ce \<Longrightarrow>
       ReadAt_copies H sf offset s' segs s'' \<Longrightarrow>
       ReadAt_copies H sf offset (nr, p, c) (copied H sf offset (nr, p, c) ce # segs) s''"

subsection \<open>Prefetch: \<^verbatim>\<open>CacheTarGzWithReader\<close> and \<^verbatim>\<open>PrefetchWithReader\<close>\<close>

definition PrefetchLandmark :: string where
  "PrefetchLandmark = ''.prefetch.landmark''"

definition NoPrefetchLandmark :: string where
  "NoPrefetchLandmark = ''.no.prefetch.landmark''"

text \<open>\<^verbatim>\<open>stargz.TOCTarName\<close>, a constant of the library.\<close>

definition TOCTarName :: string where
  "TOCTarName = ''stargz.index.json''"

text \<open>
  An \<^verbatim>\<open>io.Reader\<close> is the bytes it still has to give and the error it gives once
  they are used up (\<^verbatim>\<open>io.EOF\<close> at a regular end).  \<^verbatim>\<open>io.ReadFull\<close> into a fresh
  buffer of \<open>n\<close> bytes gives the buffer, its error and the reader after the call: a
  buffer of length 0 reads nothing; too few bytes give \<^verbatim>\<open>io.ErrUnexpectedEOF\<close> where
  the reader ended with \<^verbatim>\<open>io.EOF\<close> after at least one byte.
\<close>

record stream =
  avail :: "byte list"
  at_end :: go_error

definition ReadFull :: "stream \<Rightarrow> nat \<Rightarrow> byte list \<times> go_error option \<times> stream" where
  "ReadFull s n =
     (if n \<le> length (avail s) then (take n (avail s), None, s\<lparr>avail := drop n (avail s)\<rparr>)
      else (avail s @ replicate (n - length (avail s)) 0,
            Some (if at_end s = EOF \<and> avail s \<noteq> [] then ErrUnexpectedEOF else at_end s),
            s\<lparr>avail := []\<rparr>))"

text \<open>
  \<^verbatim>\<open>tar.Reader\<close>: the entries not yet reached, each a header (\<^verbatim>\<open>Name\<close>,
  \<^verbatim>\<open>Size\<close>) with the reader of its content; the content of the current entry; and the
  error \<^verbatim>\<open>Next\<close> gives after the last entry (\<^verbatim>\<open>io.EOF\<close> at the end of a whole
  archive, \<^verbatim>\<open>io.ErrUnexpectedEOF\<close> where the stream is cut).
\<close>

record tar_Header =
  Name :: string
  Size :: int

record tar_Reader =
  entries :: "(tar_Header \<times> stream) list"
  cur :: stream
  ending :: go_error

definition Next :: "tar_Reader \<Rightarrow> go_error + (tar_Header \<times> tar_Reader)" where
  "Next tr =
     (case entries tr of
        [] \<Rightarrow> Inl (ending tr)
      | (h, content) # es \<Rightarrow> Inr (h, tr\<lparr>entries := es, cur := content\<rparr>))"

text \<open>\<^verbatim>\<open>strings.TrimSuffix\<close>.\<close>

definition TrimSuffix :: "string \<Rightarrow> string \<Rightarrow> string" where
  "TrimSuffix s suffix =
     (if length suffix \<le> length s \<and> drop (length s - length suffix) s = suffix
      then take (length s - length suffix) s else s)"

text \<open>
  What \<^verbatim>\<open>CacheTarGzWithReader\<close> leaves: the error it returns (or a panic), and the
  tar reader and the cache as they are then.
\<close>

datatype cache_result = Returned "go_error option" tar_Reader BlobCache | Panicked

datatype chunk_step =
    ChunksBreak
  | ChunksContinue "int \<times> tar_Reader \<times> BlobCache"
  | ChunksReturn cache_result

text \<open>
  One iteration of the inner loop (lines 288 to 309), entered with \<open>nr < h.Size\<close>: \<open>fe\<close>
  is the entry of the file, \<open>nr\<close> the offset in the file.
\<close>

definition cache_chunk_body ::
  "(string \<Rightarrow> string) \<Rightarrow> stargz_Reader \<Rightarrow> tar_Header \<Rightarrow> TOCEntry
     \<Rightarrow> int \<times> tar_Reader \<times> BlobCache \<Rightarrow> chunk_step" where
  "cache_chunk_body H gr_r h fe s =
     (case s of (nr, tr, c) \<Rightarrow>
        (case ChunkEntryForOffset gr_r (Name h) nr of
           None \<Rightarrow> ChunksBreak
         | Some ce \<Rightarrow>
             (let cid = genID H (Digest fe) (ChunkOffset ce) (ChunkSize ce) in
              case cache_probe c cid (ChunkSize ce) of
                Some cacheData \<Rightarrow> ChunksContinue (int64 (nr + ChunkSize ce), tr, c)
              | None \<Rightarrow>
                  if nr \<noteq> ChunkOffset ce
                  then ChunksReturn (Returned
                         (Some (Errorf ''invalid offset %d != %d'' [ArgI nr, ArgI (ChunkOffset ce)])) tr c)
                  else if ChunkSize ce < 0 then ChunksReturn Panicked
                  else
                    (case ReadFull (cur tr) (nat (ChunkSize ce)) of
                       (data, err, rest) \<Rightarrow>
                         if err \<noteq> None \<and> err \<noteq> Some EOF
                         then ChunksReturn (Returned err (tr\<lparr>cur := rest\<rparr>) c)
                         else ChunksContinue
                                (int64 (nr + ChunkSize ce), tr\<lparr>cur := rest\<rparr>, Add c cid data)))))"

text \<open>
  The inner loop.  A chunk of size 0 leaves \<open>nr\<close> where it is, so the loop is bounded by
  fuel, \<open>None\<close> being the run that has not ended within it.  \<open>Inr\<close> is the regular end of the
  loop, \<open>Inl\<close> a return from the function.
\<close>

fun cache_chunks ::
  "nat \<Rightarrow> (string \<Rightarrow> string) \<Rightarrow> stargz_Reader \<Rightarrow> tar_Header \<Rightarrow> TOCEntry
     \<Rightarrow> int \<times> tar_Reader \<times> BlobCache \<Rightarrow> (cache_result + tar_Reader \<times> BlobCache) option" where
  "cache_chunks fuel H gr_r h fe (nr, tr, c) =
     (if nr < Size h then
        (case fuel of
           0 \<Rightarrow> None
         | Suc fuel' \<Rightarrow>
             (case cache_chunk_body H gr_r h fe (nr, tr, c) of
                ChunksBreak \<Rightarrow> Some (Inr (tr, c))
              | ChunksReturn res \<Rightarrow> Some (Inl res)
              | ChunksContinue s' \<Rightarrow> cache_chunks fuel' H gr_r h fe s'))
      else Some (Inr (tr, c)))"

declare cache_chunks.simps [simp del]

text \<open>
  The loop over the tar entries (lines 269 to 311).  Every iteration takes one entry;
  the fuel bounds the inner loops.
\<close>

fun cache_entries ::
  "nat \<Rightarrow> nat \<Rightarrow> (string \<Rightarrow> string) \<Rightarrow> stargz_Reader \<Rightarrow> tar_Reader \<Rightarrow> BlobCache \<Rightarrow> cache_result option" where
  "cache_entries 0 fuel H gr_r tr c = None"
| "cache_entries (Suc k) fuel H gr_r tr c =
     (case Next tr of
        Inl err \<Rightarrow> if err \<noteq> EOF then Some (Returned (Some err) tr c) else Some (Returned None tr c)
      | Inr (h, tr') \<Rightarrow>
          if Name h = PrefetchLandmark \<or> Name h = NoPrefetchLandmark \<or> Name h = TOCTarName
          then cache_entries k fuel H gr_r tr' c
          else
            (case Lookup gr_r (TrimSuffix (Name h) ''/'') of
               None \<Rightarrow> Some (Returned (Some (Errorf ''failed to get TOCEntry of %q'' [ArgS (Name h)])) tr' c)
             | Some fe \<Rightarrow>
                 (case cache_chunks fuel H gr_r h fe (0, tr', c) of
                    None \<Rightarrow> None
                  | Some (Inl res) \<Rightarrow> Some res
                  | Some (Inr (tr'', c'')) \<Rightarrow> cache_entries k fuel H gr_r tr'' c'')))"

text \<open>
  \<^verbatim>\<open>CacheTarGzWithReader\<close>.  \<^verbatim>\<open>gzip.NewReader\<close> and \<^verbatim>\<open>tar.NewReader\<close> are
  libraries: \<open>open_targz\<close> gives, for the bytes handed in, the error of the gzip header
  or the tar reader over them.  One more iteration than there are entries ends the
  outer loop.
\<close>

datatype 'a result = Result 'a | Panicking

definition CacheTarGzWithReader ::
  "nat \<Rightarrow> (string \<Rightarrow> string) \<Rightarrow> (byte list \<Rightarrow> go_error + tar_Reader) \<Rightarrow> stargz_Reader
     \<Rightarrow> byte list \<Rightarrow> BlobCache \<Rightarrow> (go_error option \<times> BlobCache) result option" where
  "CacheTarGzWithReader fuel H open_targz gr_r bs c =
     (case open_targz bs of
        Inl err \<Rightarrow> Some (Result (Some err, c))
      | Inr tr \<Rightarrow>
          (case cache_entries (Suc (length (entries tr))) fuel H gr_r tr c of
             None \<Rightarrow> None
           | Some Panicked \<Rightarrow> Some Panicking
           | Some (Returned err tr' c') \<Rightarrow> Some (Result (err, c'))))"

text \<open>
  \<^verbatim>\<open>io.SectionReader\<close>: its \<^verbatim>\<open>Size()\<close> and the reader it is.
\<close>

record SectionReader =
  sr_Size :: int
  sr_stream :: stream

text \<open>
  Lines 210 to 223 of \<^verbatim>\<open>PrefetchWithReader\<close>: the landmarks decide whether the
  function returns at once, fails, or goes on with a value of \<open>prefetchSize\<close>.
\<close>

datatype prefetch_plan = NoPrefetch | BadLandmark go_error | PrefetchSize int

definition prefetch_plan ::
  "stargz_Reader \<Rightarrow> SectionReader \<Rightarrow> int \<Rightarrow> prefetch_plan" where
  "prefetch_plan gr_r sr prefetchSize =
     (case Lookup gr_r NoPrefetchLandmark of
        Some e0 \<Rightarrow> NoPrefetch
      | None \<Rightarrow>
          (case Lookup gr_r PrefetchLandmark of
             Some e \<Rightarrow>
               if Offset e > sr_Size sr
               then BadLandmark (Errorf ''invalid landmark offset %d is larger than layer size %d''
                      [ArgI (Offset e), ArgI (sr_Size sr)])
               else PrefetchSize (Offset e)
           | None \<Rightarrow>
               if prefetchSize > sr_Size sr then PrefetchSize (sr_Size sr)
               else PrefetchSize prefetchSize))"

text \<open>
  Lines 225 to 237: the rest of the function, run with the value of \<open>prefetchSize\<close>
  decided above.  The result is the error returned, the section reader and the cache
  as they are left.
\<close>

definition prefetch_fetch ::
  "nat \<Rightarrow> (string \<Rightarrow> string) \<Rightarrow> (byte list \<Rightarrow> go_error + tar_Reader) \<Rightarrow> stargz_Reader
     \<Rightarrow> SectionReader \<Rightarrow> int \<Rightarrow> BlobCache
     \<Rightarrow> (go_error option \<times> SectionReader \<times> BlobCache) result option" where
  "prefetch_fetch fuel H open_targz gr_r sr prefetchSize c =
     (if prefetchSize < 0 then Some Panicking
      else
        (case ReadFull (sr_stream sr) (nat prefetchSize) of
           (prefetchBytes, err, rest) \<Rightarrow>
             if err \<noteq> None \<and> err \<noteq> Some EOF
             then Some (Result (Wrap err ''failed to prefetch layer data'', sr\<lparr>sr_stream := rest\<rparr>, c))
             else
               (case CacheTarGzWithReader fuel H open_targz gr_r prefetchBytes c of
                  None \<Rightarrow> None
                | Some Panicking \<Rightarrow> Some Panicking
                | Some (Result (err', c')) \<Rightarrow>
                    if err' \<noteq> Some EOF \<and> err' \<noteq> Some ErrUnexpectedEOF
                    then Some (Result (Wrap err' ''error occurred during caching'', sr\<lparr>sr_stream := rest\<rparr>, c'))
                    else Some (Result (None, sr\<lparr>sr_stream := rest\<rparr>, c')))))"

text \<open>
  \<^verbatim>\<open>PrefetchWithReader\<close>.  The flag \<^verbatim>\<open>prefetchInProgress\<close> is set on entry and
  cleared by the deferred function on every way out, so it is \<open>False\<close> when the call is
  over; the last component of the result is its value then.
\<close>

definition PrefetchWithReader ::
  "nat \<Rightarrow> (string \<Rightarrow> string) \<Rightarrow> (byte list \<Rightarrow> go_error + tar_Reader) \<Rightarrow> stargz_Reader
     \<Rightarrow> SectionReader \<Rightarrow> int \<Rightarrow> BlobCache
     \<Rightarrow> ((go_error option \<times> SectionReader \<times> BlobCache) result \<times> bool) option" where
  "PrefetchWithReader fuel H open_targz gr_r sr prefetchSize c =
     (case prefetch_plan gr_r sr prefetchSize of
        NoPrefetch \<Rightarrow> Some (Result (None, sr, c), False)
      | BadLandmark err \<Rightarrow> Some (Result (Some err, sr, c), False)
      | PrefetchSize n \<Rightarrow>
          (case prefetch_fetch fuel H open_targz gr_r sr n c of
             None \<Rightarrow> None
           | Some res \<Rightarrow> Some (res, False)))"

section \<open>The resolver and the fetcher (package remote)\<close>

subsection \<open>HTTP and the libraries\<close>

text \<open>
  \<^verbatim>\<open>http.Header\<close> as the list of its pairs in the order they were added.  All keys the
  code uses are written in canonical form already.  \<^verbatim>\<open>Get\<close> gives the first value,
  or the empty string.
\<close>

type_synonym Header = "(string \<times> string) list"

definition Header_Add :: "Header \<Rightarrow> string \<Rightarrow> string \<Rightarrow> Header" where
  "Header_Add h k v = h @ [(k, v)]"

definition Header_Set :: "Header \<Rightarrow> string \<Rightarrow> string \<Rightarrow> Header" where
  "Header_Set h k v = filter (\<lambda>kv. fst kv \<noteq> k) h @ [(k, v)]"

definition Header_Get :: "Header \<Rightarrow> string \<Rightarrow> string" where
  "Header_Get h k = (case map_of h k of None \<Rightarrow> [] | Some v \<Rightarrow> v)"

record Request =
  Method :: string
  URL :: string
  ReqHeader :: Header
  Close :: bool

record Response =
  StatusCode :: int
  Status :: string
  ResHeader :: Header
  Body :: stream

type_synonym RoundTripper = "Request \<Rightarrow> go_error + Response"

text \<open>\<^verbatim>\<open>ioutil.ReadAll\<close>: everything up to \<^verbatim>\<open>io.EOF\<close>, which is not reported.\<close>

definition ReadAll :: "stream \<Rightarrow> byte list \<times> go_error option" where
  "ReadAll s = (avail s, if at_end s = EOF then None else Some (at_end s))"

text \<open>
  \<^verbatim>\<open>strconv.ParseInt(s, 10, 64)\<close>: an optional sign, then decimal digits only, at least
  one; a value outside of \<^verbatim>\<open>int64\<close> is an error.
\<close>

definition digit_val :: "char \<Rightarrow> nat option" where
  "digit_val ch = (if ch \<in> set ''0123456789'' then Some (of_char ch - 48) else None)"

fun ParseUint :: "nat \<Rightarrow> string \<Rightarrow> nat option" where
  "ParseUint acc [] = Some acc"
| "ParseUint acc (ch # cs) =
     (case digit_val ch of None \<Rightarrow> None | Some d \<Rightarrow> ParseUint (10 * acc + d) cs)"

definition ParseInt :: "string \<Rightarrow> go_error + int" where
  "ParseInt s =
     (let neg = (s \<noteq> [] \<and> hd s = CHR ''-'');
          ds = (if s \<noteq> [] \<and> (hd s = CHR ''+'' \<or> hd s = CHR ''-'') then tl s else s)
      in if ds = [] then Inl (Errorf ''strconv.ParseInt: parsing %q: invalid syntax'' [ArgS s])
         else case ParseUint 0 ds of
           None \<Rightarrow> Inl (Errorf ''strconv.ParseInt: parsing %q: invalid syntax'' [ArgS s])
         | Some un \<Rightarrow>
             if (\<not> neg \<and> 2 ^ 63 \<le> un) \<or> (neg \<and> 2 ^ 63 < un)
             then Inl (Errorf ''strconv.ParseInt: parsing %q: value out of range'' [ArgS s])
             else Inr (if neg then - int un else int un))"

text \<open>
  The parts of registry references the resolver reads: of a parsed docker reference
  its \<^verbatim>\<open>Domain\<close> and \<^verbatim>\<open>Path\<close>; of a \<^verbatim>\<open>name.Reference\<close> its \<^verbatim>\<open>Name()\<close>,
  \<^verbatim>\<open>String()\<close> and, of its context, the scheme, registry and repository.
\<close>

record Named =
  Domain :: string
  Path :: string

record Reference =
  ref_Name :: string
  ref_String :: string
  Scheme :: string
  RegistryStr :: string
  RepositoryStr :: string

type_synonym Authenticator = string

type_synonym Keychain = "Reference \<Rightarrow> go_error + Authenticator"

text \<open>
  A part of a multipart body and a \<^verbatim>\<open>multipart.Reader\<close>: the parts still to come and
  the error \<^verbatim>\<open>NextPart\<close> gives after the last one.
\<close>

record Part =
  PartHeader :: Header
  PartBody :: stream

record multipart_Reader =
  parts :: "Part list"
  parts_end :: go_error

definition NextPart :: "multipart_Reader \<Rightarrow> (go_error + Part) \<times> multipart_Reader" where
  "NextPart mr =
     (case parts mr of
        [] \<Rightarrow> (Inl (parts_end mr), mr)
      | p # ps \<Rightarrow> (Inr p, mr\<lparr>parts := ps\<rparr>))"

text \<open>
  The library functions the package calls, as parameters: the URL check of
  \<^verbatim>\<open>http.NewRequest\<close>, \<^verbatim>\<open>mime.ParseMediaType\<close>, \<^verbatim>\<open>multipart.NewReader\<close>,
  \<^verbatim>\<open>docker.ParseDockerRef\<close>, \<^verbatim>\<open>name.ParseReference\<close> (with or without the option
  \<^verbatim>\<open>name.Insecure\<close>), \<^verbatim>\<open>authn.DefaultKeychain\<close> and \<^verbatim>\<open>transport.New\<close>, whose
  result is \<open>None\<close> when it has not come within the ten seconds \<^verbatim>\<open>authnTransport\<close>
  waits.  \<open>FindStringSubmatch\<close> is that method of \<^verbatim>\<open>contentRangeRegexp\<close>, a variable
  declared elsewhere in the package.
\<close>

record lib =
  url_Parse :: "string \<Rightarrow> go_error option"
  ParseMediaType :: "string \<Rightarrow> string \<times> (string \<Rightarrow> string) \<times> go_error option"
  multipart_NewReader :: "stream \<Rightarrow> string \<Rightarrow> multipart_Reader"
  FindStringSubmatch :: "string \<Rightarrow> string list"
  ParseDockerRef :: "string \<Rightarrow> go_error + Named"
  ParseReference :: "string \<Rightarrow> bool \<Rightarrow> go_error + Reference"
  DefaultKeychain :: Keychain
  transport_New :: "Reference \<Rightarrow> Authenticator \<Rightarrow> RoundTripper \<Rightarrow> (go_error + RoundTripper) option"

text \<open>\<^verbatim>\<open>http.NewRequest(method, url, nil)\<close>: a request with no header yet.\<close>

definition NewRequest :: "lib \<Rightarrow> string \<Rightarrow> string \<Rightarrow> go_error + Request" where
  "NewRequest L method u =
     (case url_Parse L u of
        Some err \<Rightarrow> Inl err
      | None \<Rightarrow> Inr \<lparr>Method = method, URL = u, ReqHeader = [], Close = False\<rparr>)"

subsection \<open>Regions\<close>

text \<open>
  Modelled from the spec: the type \<^verbatim>\<open>region\<close> and its method \<^verbatim>\<open>size()\<close> are declared
  in a file of the package that is not at hand.  The spec: an inclusive byte interval
  \<^verbatim>\<open>{b, e}\<close> with \<^verbatim>\<open>size = e - b + 1\<close>.
\<close>

datatype region = Region int int

fun reg_b :: "region \<Rightarrow> int" where "reg_b (Region b e) = b"

fun reg_e :: "region \<Rightarrow> int" where "reg_e (Region b e) = e"

definition region_size :: "region \<Rightarrow> int" where
  "region_size reg = int64 (int64 (reg_e reg - reg_b reg) + 1)"

definition parseRange :: "lib \<Rightarrow> string \<Rightarrow> go_error + region" where
  "parseRange L header =
     (let submatches = FindStringSubmatch L header in
      if length submatches < 4
      then Inl (Errorf ''Content-Range %q doesn't have enough information'' [ArgS header])
      else
        (case ParseInt (submatches ! 1) of
           Inl err \<Rightarrow> Inl (Wrapped err ''failed to parse beginning offset %q'' [ArgS (submatches ! 1)])
         | Inr begin \<Rightarrow>
             (case ParseInt (submatches ! 2) of
                Inl err \<Rightarrow> Inl (Wrapped err ''failed to parse end offset %q'' [ArgS (submatches ! 2)])
              | Inr end' \<Rightarrow> Inr (Region begin end'))))"

subsection \<open>The fetcher\<close>

text \<open>
  The fields of \<^verbatim>\<open>fetcher\<close>.  Its pointer to the resolver is not a field here: the
  resolver it points to is handed to \<open>Refresh\<close> as the state it works on.
\<close>

record fetcher =
  f_ref :: string
  f_digest :: string
  f_nref :: Reference
  f_url :: string
  f_tr :: RoundTripper

text \<open>The options of \<^verbatim>\<open>fetch\<close>; the context only carries deadlines and is left out.\<close>

record options =
  opt_tr :: "RoundTripper option"

text \<open>Lines 368 to 372: the value of the \<^verbatim>\<open>Range\<close> header.\<close>

definition Range_header :: "region list \<Rightarrow> string" where
  "Range_header requests =
     butlast (foldl (\<lambda>ranges reg. ranges @ fmt_d (reg_b reg) @ ''-'' @ fmt_d (reg_e reg) @ '','')
                ''bytes=0-0,'' requests)"

text \<open>
  The value of the header in the words of the specification: the dummy region
  \<^verbatim>\<open>0-0\<close>, then the requested regions as \<^verbatim>\<open>b-e\<close> in the order of the request, joined
  by commas.
\<close>

fun comma_join :: "string list \<Rightarrow> string" where
  "comma_join [] = []"
| "comma_join [x] = x"
| "comma_join (x # y # zs) = x @ '','' @ comma_join (y # zs)"

definition spec_Range_header :: "region list \<Rightarrow> string" where
  "spec_Range_header requests =
     ''bytes='' @ comma_join (''0-0'' # map (\<lambda>reg. fmt_d (reg_b reg) @ ''-'' @ fmt_d (reg_e reg)) requests)"

text \<open>Lines 409 to 430: the loop over the parts that follow the dummy part.\<close>

fun fetch_parts ::
  "lib \<Rightarrow> string \<Rightarrow> Part list \<Rightarrow> go_error \<Rightarrow> (region \<rightharpoonup> byte list)
     \<Rightarrow> (region \<rightharpoonup> byte list) option \<times> go_error option" where
  "fetch_parts L u [] pend remoteData =
     (if pend = EOF then (Some remoteData, None)
      else (None, Wrapf (Some pend) ''failed to read multipart response from %q'' [ArgS u]))"
| "fetch_parts L u (p # ps) pend remoteData =
     (case parseRange L (Header_Get (PartHeader p) ''Content-Range'') of
        Inl err \<Rightarrow> (None, Wrapf (Some err) ''failed to parse Content-Range in %q'' [ArgS u])
      | Inr reg \<Rightarrow>
          (case ReadAll (PartBody p) of
             (data, Some err) \<Rightarrow> (None, Wrapf (Some err) ''failed to read multipart data on %q'' [ArgS u])
           | (data, None) \<Rightarrow>
               if int (length data) \<noteq> region_size reg
               then (None, Wrapf None ''broken partial body:got size %d; want %d for %q''
                             [ArgI (int (length data)), ArgI (region_size reg), ArgS u])
               else fetch_parts L u ps pend (remoteData(reg \<mapsto> data))))"

text \<open>
  Lines 380 to 432: what \<^verbatim>\<open>fetch\<close> makes of the response.  In the branch for status
  200 the variable \<^verbatim>\<open>err\<close> handed to \<^verbatim>\<open>errors.Wrapf\<close> at line 395 is the one
  \<^verbatim>\<open>strconv.ParseInt\<close> has just left nil.
\<close>

definition fetch_response ::
  "lib \<Rightarrow> fetcher \<Rightarrow> Response \<Rightarrow> (region \<rightharpoonup> byte list) option \<times> go_error option" where
  "fetch_response L f res =
     (if StatusCode res \<noteq> 200 \<and> StatusCode res \<noteq> 206
      then (None, Some (Errorf ''unexpected status code on %q: %v'' [ArgS (f_url f), ArgS (Status res)]))
      else if StatusCode res = 200 then
        (case ReadAll (Body res) of
           (data, Some err) \<Rightarrow>
             (None, Wrapf (Some err) ''Failed to read response body from %q'' [ArgS (f_url f)])
         | (data, None) \<Rightarrow>
             (case ParseInt (Header_Get (ResHeader res) ''Content-Length'') of
                Inl err \<Rightarrow> (None, Wrapf (Some err) ''failed to parse Content-Length for %q'' [ArgS (f_url f)])
              | Inr sz \<Rightarrow>
                  if int (length data) \<noteq> sz
                  then (None, Wrapf None ''broken response body:got size %d; want %d for %q''
                                [ArgI (int (length data)), ArgI sz, ArgS (f_url f)])
                  else (Some [Region 0 (int64 (sz - 1)) \<mapsto> data], None)))
      else
        (case ParseMediaType L (Header_Get (ResHeader res) ''Content-Type'') of
           (mediaType, params, err) \<Rightarrow>
             if err \<noteq> None \<or> take 10 mediaType \<noteq> ''multipart/''
             then (None, Wrapf err ''invalid media type %q for %q'' [ArgS mediaType, ArgS (f_url f)])
             else
               (let mr = snd (NextPart (multipart_NewReader L (Body res) (params ''boundary'')))
                in fetch_parts L (f_url f) (parts mr) (parts_end mr) Map.empty)))"

text \<open>
  \<^verbatim>\<open>fetcher.fetch\<close>.  The first component of the result lists the requests handed to
  the transport, the other two are the values returned.
\<close>

definition fetch ::
  "lib \<Rightarrow> fetcher \<Rightarrow> options \<Rightarrow> region list
     \<Rightarrow> Request list \<times> (region \<rightharpoonup> byte list) option \<times> go_error option" where
  "fetch L f opt requests =
     (let t = (case opt_tr opt of Some t' \<Rightarrow> t' | None \<Rightarrow> f_tr f) in
      case NewRequest L ''GET'' (f_url f) of
        Inl err \<Rightarrow> ([], None, Some err)
      | Inr req0 \<Rightarrow>
          (let req = req0\<lparr>ReqHeader :=
                           Header_Add (Header_Add (ReqHeader req0) ''Range'' (Range_header requests))
                             ''Accept-Encoding'' ''identity'',
                         Close := False\<rparr>
           in case t req of
                Inl err \<Rightarrow> ([req], None, Wrapf (Some err) ''failed to request to %q'' [ArgS (f_url f)])
              | Inr res \<Rightarrow> (case fetch_response L f res of (m, err) \<Rightarrow> ([req], m, err))))"

subsection \<open>The resolver\<close>

record MirrorConfig =
  Host :: string
  Insecure :: bool

record ResolverConfig =
  Mirrors :: "MirrorConfig list"

record Resolver =
  transport :: RoundTripper
  trPool :: "string \<rightharpoonup> RoundTripper"
  keychain :: "Keychain option"
  config :: "string \<rightharpoonup> ResolverConfig"

text \<open>
  \<^verbatim>\<open>redirect\<close>.  The quotients \<^verbatim>\<open>StatusCode/100\<close> are compared with 2 and 3 only, where
  Go's division and \<open>div\<close> agree.
\<close>

definition redirect :: "lib \<Rightarrow> string \<Rightarrow> RoundTripper \<Rightarrow> go_error + string" where
  "redirect L endpointURL t =
     (case NewRequest L ''GET'' endpointURL of
        Inl err \<Rightarrow> Inl (Wrapped err ''failed to request to the registry of %q'' [ArgS endpointURL])
      | Inr req0 \<Rightarrow>
          (case t (req0\<lparr>Close := False, ReqHeader := Header_Set (ReqHeader req0) ''Range'' ''bytes=0-1''\<rparr>) of
             Inl err \<Rightarrow> Inl (Wrapped err ''failed to request to %q'' [ArgS endpointURL])
           | Inr res \<Rightarrow>
               if StatusCode res div 100 = 2 then Inr endpointURL
               else if Header_Get (ResHeader res) ''Location'' \<noteq> [] \<and> StatusCode res div 100 = 3
               then Inr (Header_Get (ResHeader res) ''Location'')
               else Inl (Errorf ''failed to access to %q with code %v''
                           [ArgS endpointURL, ArgI (StatusCode res)])))"

definition getSize :: "lib \<Rightarrow> string \<Rightarrow> RoundTripper \<Rightarrow> go_error + int" where
  "getSize L u t =
     (case NewRequest L ''HEAD'' u of
        Inl err \<Rightarrow> Inl err
      | Inr req0 \<Rightarrow>
          (case t (req0\<lparr>Close := False\<rparr>) of
             Inl err \<Rightarrow> Inl err
           | Inr res \<Rightarrow>
               if StatusCode res \<noteq> 200
               then Inl (Errorf ''failed HEAD request with code %v'' [ArgI (StatusCode res)])
               else ParseInt (Header_Get (ResHeader res) ''Content-Length'')))"

definition authnTransport ::
  "lib \<Rightarrow> Reference \<Rightarrow> RoundTripper \<Rightarrow> Keychain option \<Rightarrow> go_error + RoundTripper" where
  "authnTransport L nr t kc =
     (case (case kc of None \<Rightarrow> DefaultKeychain L | Some k \<Rightarrow> k) nr of
        Inl err \<Rightarrow> Inl (Wrapped err ''failed to resolve the reference %q'' [ArgS (ref_String nr)])
      | Inr auth \<Rightarrow>
          (case transport_New L nr auth t of
             None \<Rightarrow> Inl (Errorf ''authentication timeout'' [])
           | Some res \<Rightarrow> res))"

definition resolveReference ::
  "lib \<Rightarrow> Resolver \<Rightarrow> Reference \<Rightarrow> string \<Rightarrow> Resolver \<times> (go_error + string)" where
  "resolveReference L rs nr dg =
     (let endpointURL = Scheme nr @ ''://'' @ RegistryStr nr @ ''/v2/'' @ RepositoryStr nr @ ''/blobs/'' @ dg
      in case (case trPool rs (ref_Name nr) of
                 None \<Rightarrow> None
               | Some t \<Rightarrow> (case redirect L endpointURL t of Inl err \<Rightarrow> None | Inr u \<Rightarrow> Some u)) of
           Some u \<Rightarrow> (rs, Inr u)
         | None \<Rightarrow>
             (case authnTransport L nr (transport rs) (keychain rs) of
                Inl err \<Rightarrow> (rs, Inl err)
              | Inr t \<Rightarrow>
                  (case redirect L endpointURL t of
                     Inl err \<Rightarrow> (rs, Inl err)
                   | Inr u \<Rightarrow> (rs\<lparr>trPool := (trPool rs)(ref_Name nr \<mapsto> t)\<rparr>, Inr u))))"

text \<open>
  One iteration of the loop of \<^verbatim>\<open>resolve\<close> over the hosts (lines 158 to 202).  \<open>Inl\<close>
  is the way to \<^verbatim>\<open>continue\<close>, with the format and the arguments that
  \<^verbatim>\<open>errors.Wrapf\<close> puts around \<^verbatim>\<open>rErr\<close>; \<open>Inr\<close> is the way to \<^verbatim>\<open>break\<close>, with
  the values of \<^verbatim>\<open>nref\<close>, \<^verbatim>\<open>url\<close>, \<^verbatim>\<open>tr\<close> and \<^verbatim>\<open>size\<close>.
\<close>

definition resolve_host ::
  "lib \<Rightarrow> Resolver \<Rightarrow> Named \<Rightarrow> string \<Rightarrow> MirrorConfig
     \<Rightarrow> Resolver \<times> (string \<times> fmt_arg list + Reference \<times> string \<times> RoundTripper \<times> int)" where
  "resolve_host L rs named dg h =
     (if Host h = [] \<or> CHR ''/'' \<in> set (Host h)
      then (rs, Inl (''host %q: mirror must be a domain name'', [ArgS (Host h)]))
      else
        (let sref = Host h @ ''/'' @ Path named in
         case ParseReference L sref (Insecure h) of
           Inl err \<Rightarrow>
             (rs, Inl (''host %q: failed to parse ref %q (%q): %v'',
                       [ArgS (Host h), ArgS sref, ArgS dg, ArgE (Some err)]))
         | Inr nr \<Rightarrow>
             (case resolveReference L rs nr dg of
                (rs', Inl err) \<Rightarrow>
                  (rs', Inl (''host %q: failed to resolve ref %q (%q): %v'',
                             [ArgS (Host h), ArgS (ref_String nr), ArgS dg, ArgE (Some err)]))
              | (rs', Inr u) \<Rightarrow>
                  (case trPool rs' (ref_Name nr) of
                     None \<Rightarrow>
                       (rs', Inl (''host %q: transport %q not found in pool'',
                                  [ArgS (Host h), ArgS (ref_Name nr)]))
                   | Some t \<Rightarrow>
                       (case getSize L u t of
                          Inl err \<Rightarrow>
                            (rs', Inl (''host %q: failed to get size of %q: %v'',
                                       [ArgS (Host h), ArgS u, ArgE (Some err)]))
                        | Inr sz \<Rightarrow> (rs', Inr (nr, u, t, sz)))))))"

fun resolve_hosts ::
  "lib \<Rightarrow> Named \<Rightarrow> string \<Rightarrow> MirrorConfig list \<Rightarrow> Resolver \<Rightarrow> go_error
     \<Rightarrow> Resolver \<times> (go_error + Reference \<times> string \<times> RoundTripper \<times> int)" where
  "resolve_hosts L named dg [] rs rErr = (rs, Inl rErr)"
| "resolve_hosts L named dg (h # hs) rs rErr =
     (case resolve_host L rs named dg h of
        (rs', Inl (fm, args)) \<Rightarrow> resolve_hosts L named dg hs rs' (Wrapped rErr fm args)
      | (rs', Inr win) \<Rightarrow> (rs', Inr win))"

text \<open>The list of hosts of line 153: a domain the configuration does not know has no mirrors.\<close>

definition hosts_of :: "Resolver \<Rightarrow> Named \<Rightarrow> MirrorConfig list" where
  "hosts_of rs named =
     (case config rs (Domain named) of None \<Rightarrow> [] | Some cfg \<Rightarrow> Mirrors cfg)
       @ [\<lparr>Host = Domain named, Insecure = False\<rparr>]"

text \<open>
  \<^verbatim>\<open>Resolver.resolve\<close>: the resolver with its pool as the call leaves it, and either the
  error or the fetcher with the size.
\<close>

definition resolve ::
  "lib \<Rightarrow> Resolver \<Rightarrow> string \<Rightarrow> string \<Rightarrow> Resolver \<times> (go_error + fetcher \<times> int)" where
  "resolve L rs rf dg =
     (case ParseDockerRef L rf of
        Inl err \<Rightarrow> (rs, Inl err)
      | Inr named \<Rightarrow>
          (case resolve_hosts L named dg (hosts_of rs named) rs (Errorf ''failed to resolve'' []) of
             (rs', Inl rErr) \<Rightarrow>
               (rs', Inl (Wrapped rErr ''cannot resolve ref %q (%q)'' [ArgS rf, ArgS dg]))
           | (rs', Inr (nr, u, t, sz)) \<Rightarrow>
               (rs', Inr (\<lparr>f_ref = rf, f_digest = dg, f_nref = nr, f_url = u, f_tr = t\<rparr>, sz))))"

text \<open>
  The fields of \<^verbatim>\<open>blob\<close> that \<^verbatim>\<open>Refresh\<close> reads and writes, and what can stand behind
  the interface \<^verbatim>\<open>Blob\<close>: a \<^verbatim>\<open>*blob\<close> or a value of another type.
\<close>

record blob =
  fetcher :: fetcher
  size' :: int
  chunkSize :: int
  lastCheck :: int
  checkInterval :: int

datatype Blob = ptr_blob blob | other_Blob

text \<open>
  \<^verbatim>\<open>Resolver.Refresh\<close>.  Its receiver is not used: \<^verbatim>\<open>b.fetcher.refresh()\<close> calls
  \<^verbatim>\<open>resolve\<close> on the resolver the fetcher points to, which is \<open>rs\<close> here.  \<open>now\<close> is the
  value of \<^verbatim>\<open>time.Now()\<close>.  The result is the error, the target and the resolver
  after the call.
\<close>

definition Refresh ::
  "lib \<Rightarrow> Resolver \<Rightarrow> int \<Rightarrow> Blob \<Rightarrow> go_error option \<times> Blob \<times> Resolver" where
  "Refresh L rs now target =
     (case target of
        other_Blob \<Rightarrow> (Some (Errorf ''invalid type of blob. must be *blob'' []), target, rs)
      | ptr_blob b \<Rightarrow>
          (case resolve L rs (f_ref (fetcher b)) (f_digest (fetcher b)) of
             (rs', Inl err) \<Rightarrow> (Some err, target, rs')
           | (rs', Inr (new, newSize)) \<Rightarrow>
               if newSize \<noteq> size' b
               then (Some (Errorf ''Invalid size of new blob %d; want %d'' [ArgI newSize, ArgI (size' b)]),
                     target, rs')
               else (None, ptr_blob (b\<lparr>fetcher := new, lastCheck := now\<rparr>), rs')))"

subsection \<open>Specification vocabulary for \<^verbatim>\<open>resolve\<close>\<close>

text \<open>
  The contexts wrapped around an error, innermost first: the format and the arguments of
  each \<^verbatim>\<open>errors.Wrapf\<close>.
\<close>

fun contexts :: "go_error \<Rightarrow> (string \<times> fmt_arg list) list" where
  "contexts (Wrapped e fm args) = contexts e @ [(fm, args)]"
| "contexts e = []"

section \<open>A small layer to run the definitions on\<close>

text \<open>
  A reader over given bytes, as \<^verbatim>\<open>io.SectionReader.ReadAt\<close> behaves: \<^verbatim>\<open>io.EOF\<close>
  outside of the bytes and on a short read.
\<close>

definition content_reader :: "byte list \<Rightarrow> ReaderAt" where
  "content_reader content n off =
     (if off < 0 \<or> int (length content) \<le> off then ([], Some EOF)
      else (let bs = take n (drop (nat off) content)
            in (bs, if length bs < n then Some EOF else None)))"

text \<open>The examples run with the identity in the place of the hash, so that IDs can be read.\<close>

definition ex_hash :: "string \<Rightarrow> string" where
  "ex_hash s = s"

text \<open>The file \<^verbatim>\<open>b\<close> of eight bytes in two chunks of four.\<close>

definition ex_toc :: "string \<Rightarrow> int \<Rightarrow> TOCEntry option" where
  "ex_toc nm off =
     (if nm = ''b'' \<and> 0 \<le> off \<and> off < 4
      then Some \<lparr>Digest = ''d'', Offset = 0, ChunkOffset = 0, ChunkSize = 4\<rparr>
      else if nm = ''b'' \<and> 4 \<le> off \<and> off < 8
      then Some \<lparr>Digest = ''d'', Offset = 0, ChunkOffset = 4, ChunkSize = 4\<rparr>
      else None)"

definition ex_file :: "file'" where
  "ex_file = \<lparr>name = ''b'', digest = ''d'', ra = content_reader [1, 2, 3, 4, 5, 6, 7, 8],
     r = \<lparr>Lookup = (\<lambda>n. None), ChunkEntryForOffset = ex_toc\<rparr>\<rparr>"

text \<open>The same file over a reader that breaks down on the second chunk.\<close>

definition ex_broken_file :: "file'" where
  "ex_broken_file = ex_file\<lparr>ra :=
     (\<lambda>n off. if off = 4 then ([], Some (Errorf ''connection reset'' []))
               else content_reader [1, 2, 3, 4, 5, 6, 7, 8] n off)\<rparr>"

text \<open>
  A registry setting: the domain \<^verbatim>\<open>D\<close> with the mirrors \<^verbatim>\<open>A\<close> and \<^verbatim>\<open>B\<close>.  The
  network answers 500 for \<^verbatim>\<open>A\<close>, serves the blob of 1000 bytes on \<^verbatim>\<open>B\<close> and does not
  know any other host.
\<close>

definition ex_net :: RoundTripper where
  "ex_net req =
     (if URL req = ''https://A/v2/repo/blobs/dg''
      then Inr \<lparr>StatusCode = 500, Status = ''500 Internal Server Error'', ResHeader = [],
                Body = \<lparr>avail = [], at_end = EOF\<rparr>\<rparr>
      else if URL req = ''https://B/v2/repo/blobs/dg''
      then Inr \<lparr>StatusCode = 200, Status = ''200 OK'', ResHeader = [(''Content-Length'', ''1000'')],
                Body = \<lparr>avail = [], at_end = EOF\<rparr>\<rparr>
      else Inl (Errorf ''no such host'' []))"

definition ex_lib :: lib where
  "ex_lib = \<lparr>
     url_Parse = (\<lambda>u. None),
     ParseMediaType = (\<lambda>v. (v, (\<lambda>k. []), None)),
     multipart_NewReader = (\<lambda>body boundary. \<lparr>parts = [], parts_end = EOF\<rparr>),
     FindStringSubmatch = (\<lambda>header. []),
     ParseDockerRef = (\<lambda>rf. if rf = ''D/repo'' then Inr \<lparr>Domain = ''D'', Path = ''repo''\<rparr>
                              else Inl (Errorf ''invalid reference format'' [])),
     ParseReference = (\<lambda>s insecure.
        Inr \<lparr>ref_Name = s, ref_String = s, Scheme = (if insecure then ''http'' else ''https''),
             RegistryStr = takeWhile (\<lambda>ch. ch \<noteq> CHR ''/'') s,
             RepositoryStr = tl (dropWhile (\<lambda>ch. ch \<noteq> CHR ''/'') s)\<rparr>),
     DefaultKeychain = (\<lambda>nr. Inr ''anonymous''),
     transport_New = (\<lambda>nr auth t. Some (Inr t))\<rparr>"

definition ex_resolver :: Resolver where
  "ex_resolver = \<lparr>transport = ex_net, trPool = Map.empty, keychain = None,
     config = [''D'' \<mapsto> \<lparr>Mirrors = [\<lparr>Host = ''A'', Insecure = False\<rparr>,
                                       \<lparr>Host = ''B'', Insecure = False\<rparr>]\<rparr>]\<rparr>"

text \<open>
  A fetcher, and two transports that answer 200 with a declared length of 100: one with
  the 100 bytes, one with a body of 99 bytes.
\<close>

definition ex_reference :: Reference where
  "ex_reference = \<lparr>ref_Name = ''B/repo'', ref_String = ''B/repo'', Scheme = ''https'',
     RegistryStr = ''B'', RepositoryStr = ''repo''\<rparr>"

definition ex_fetcher :: fetcher where
  "ex_fetcher = \<lparr>f_ref = ''D/repo'', f_digest = ''dg'', f_nref = ex_reference,
     f_url = ''https://B/v2/repo/blobs/dg'', f_tr = ex_net\<rparr>"

definition whole_blob :: "nat \<Rightarrow> RoundTripper" where
  "whole_blob n req =
     Inr \<lparr>StatusCode = 200, Status = ''200 OK'', ResHeader = [(''Content-Length'', ''100'')],
          Body = \<lparr>avail = replicate n 7, at_end = EOF\<rparr>\<rparr>"

text \<open>The same resolver with the network down.\<close>

definition ex_down_resolver :: Resolver where
  "ex_down_resolver = ex_resolver\<lparr>transport := (\<lambda>req. Inl (Errorf ''network is unreachable'' []))\<rparr>"

definition ex_blob :: blob where
  "ex_blob = \<lparr>fetcher = ex_fetcher, size' = 1000, chunkSize = 50000, lastCheck = 0, checkInterval = 60\<rparr>"

text \<open>What the loop of \<^verbatim>\<open>resolve\<close> accumulates for a host when the network is down.\<close>

definition ex_down_ctx :: "string \<Rightarrow> string \<times> fmt_arg list" where
  "ex_down_ctx host =
     (''host %q: failed to resolve ref %q (%q): %v'',
      [ArgS host, ArgS (host @ ''/repo''), ArgS ''dg'',
       ArgE (Some (Wrapped (Errorf ''network is unreachable'' []) ''failed to request to %q''
                     [ArgS (''https://'' @ host @ ''/v2/repo/blobs/dg'')]))])"

definition ex_down_error :: go_error where
  "ex_down_error =
     foldl (\<lambda>e ctx. Wrapped e (fst ctx) (snd ctx)) (Errorf ''failed to resolve'' [])
       (map ex_down_ctx [''A'', ''B'', ''D''])"

text \<open>
  The layer of the file \<^verbatim>\<open>b\<close> as a tar stream, and the reader of its TOC; then TOCs with
  the landmark \<^verbatim>\<open>.no.prefetch.landmark\<close> and with \<^verbatim>\<open>.prefetch.landmark\<close> at a given
  offset, and a layer of 100 bytes.
\<close>

definition ex_tar :: tar_Reader where
  "ex_tar = \<lparr>entries = [(\<lparr>Name = ''b'', Size = 8\<rparr>, \<lparr>avail = [1, 2, 3, 4, 5, 6, 7, 8], at_end = EOF\<rparr>)],
     cur = \<lparr>avail = [], at_end = EOF\<rparr>, ending = EOF\<rparr>"

definition ex_gr_r :: stargz_Reader where
  "ex_gr_r = \<lparr>Lookup = (\<lambda>n. if n = ''b''
                              then Some \<lparr>Digest = ''d'', Offset = 0, ChunkOffset = 0, ChunkSize = 4\<rparr>
                              else None),
     ChunkEntryForOffset = ex_toc\<rparr>"

definition ex_no_prefetch_r :: stargz_Reader where
  "ex_no_prefetch_r = ex_gr_r\<lparr>Lookup :=
     (\<lambda>n. if n = NoPrefetchLandmark
           then Some \<lparr>Digest = [], Offset = 40, ChunkOffset = 0, ChunkSize = 0\<rparr>
           else Lookup ex_gr_r n)\<rparr>"

definition ex_landmark_r :: "int \<Rightarrow> stargz_Reader" where
  "ex_landmark_r off = ex_gr_r\<lparr>Lookup :=
     (\<lambda>n. if n = PrefetchLandmark
           then Some \<lparr>Digest = [], Offset = off, ChunkOffset = 0, ChunkSize = 0\<rparr>
           else Lookup ex_gr_r n)\<rparr>"

definition ex_layer :: SectionReader where
  "ex_layer = \<lparr>sr_Size = 100, sr_stream = \<lparr>avail = replicate 100 9, at_end = EOF\<rparr>\<rparr>"

text \<open>The tar reader standing at the content of the entry \<^verbatim>\<open>b\<close>, and the chunks of \<^verbatim>\<open>b\<close>.\<close>

definition ex_tar_b :: tar_Reader where
  "ex_tar_b = \<lparr>entries = [], cur = \<lparr>avail = [1, 2, 3, 4, 5, 6, 7, 8], at_end = EOF\<rparr>, ending = EOF\<rparr>"

definition ex_chunk :: "int \<Rightarrow> TOCEntry" where
  "ex_chunk off = \<lparr>Digest = ''d'', Offset = 0, ChunkOffset = off, ChunkSize = 4\<rparr>"

section \<open>Properties of \<^verbatim>\<open>file.ReadAt\<close>\<close>

subsection \<open>Evaluating the example\<close>

lemma digits_small: "n < 10 \<Longrightarrow> digits n = [digit n]"
  by (simp add: digits.simps)

lemma genID_ex:
  "genID ex_hash ''d'' 0 4 = ''d-0-4''"
  "genID ex_hash ''d'' 4 4 = ''d-4-4''"
  by (simp_all add: genID_def ex_hash_def fmt_d_def digits_small digit_def)

lemma int64_small:
  "int64 0 = 0" "int64 1 = 1" "int64 2 = 2" "int64 3 = 3" "int64 4 = 4"
  "int64 5 = 5" "int64 6 = 6" "int64 7 = 7" "int64 8 = 8"
  by (simp_all add: int64_def)

lemmas ex_defs =
  ReadAt_body_def ex_file_def ex_broken_file_def ex_toc_def int64_small chunk_data_def genID_ex
  cache_probe_def Fetch_def Add_def read_into_def content_reader_def Let_def Wrap_def

subsection \<open>The bytes of a chunk and the step of the loop\<close>

lemma length_read_into: "length (fst (read_into rd n off)) = n"
  by (simp add: read_into_def Let_def split: prod.splits)

lemma length_chunk_bytes: "0 \<le> ChunkSize ce \<Longrightarrow> int (length (chunk_bytes sf ce)) = ChunkSize ce"
  by (simp add: chunk_bytes_def length_read_into)

lemma chunk_data_length:
  assumes "chunk_data H sf c p ce = Inr (data, c')"
  shows "int (length data) = ChunkSize ce"
proof (cases "cache_probe c (genID H (digest sf) (ChunkOffset ce) (ChunkSize ce)) (ChunkSize ce)")
  case None
  with assms show ?thesis
    using length_read_into [of "ra sf" "nat (ChunkSize ce)" "ChunkOffset ce"]
    by (auto simp: chunk_data_def split: if_splits prod.splits)
next
  case (Some d)
  with assms show ?thesis
    by (auto simp: chunk_data_def cache_probe_def split: option.splits if_splits)
qed

lemma body_Continue:
  assumes "ReadAt_body H sf offset (nr, p, c) = Continue (nr', p', c')"
  obtains ce data where
    "ChunkEntryForOffset (r sf) (name sf) (int64 (offset + int nr)) = Some ce"
    "chunk_data H sf c p ce = Inr (data, c')"
    "0 \<le> int64 (int64 (offset + int nr) - ChunkOffset ce)"
    "int64 (int64 (offset + int nr) - ChunkOffset ce) \<le> int (length data)"
    "nr' = nr + min (length p - nr) (length data - nat (int64 (int64 (offset + int nr) - ChunkOffset ce)))"
    "p' = take nr p @ take (nr' - nr) (drop (nat (int64 (int64 (offset + int nr) - ChunkOffset ce))) data)
            @ drop nr' p"
  using assms
  by (auto simp: ReadAt_body_def Let_def split: option.splits sum.splits if_splits)

lemma body_Continue_bounds:
  assumes "ReadAt_body H sf offset (nr, p, c) = Continue (nr', p', c')" and "nr \<le> length p"
  shows "nr \<le> nr' \<and> nr' \<le> length p \<and> length p' = length p"
  using assms(1)
proof (rule body_Continue)
  fix ce data
  let ?k = "nat (int64 (int64 (offset + int nr) - ChunkOffset ce))"
  assume n: "nr' = nr + min (length p - nr) (length data - ?k)"
    and p': "p' = take nr p @ take (nr' - nr) (drop ?k data) @ drop nr' p"
  from n assms(2) have b: "nr \<le> nr'" "nr' \<le> length p" by auto
  from n have "nr' - nr \<le> length data - ?k" by simp
  with p' b show ?thesis by simp
qed

subsection \<open>Iterations and the loop\<close>

lemma iter_loop:
  "ReadAt_iter H sf offset s ns s' \<Longrightarrow>
   ReadAt_loop (length ns + fuel) H sf offset s = ReadAt_loop fuel H sf offset s'"
  by (induction rule: ReadAt_iter.induct) (simp_all add: ReadAt_loop.simps)

lemma iter_bounds:
  "ReadAt_iter H sf offset s ns s' \<Longrightarrow> fst s \<le> length (fst (snd s)) \<Longrightarrow>
   fst s' = fst s + sum_list ns \<and> fst s' \<le> length (fst (snd s')) \<and>
   length (fst (snd s')) = length (fst (snd s))"
proof (induction rule: ReadAt_iter.induct)
  case (iter_done s)
  then show ?case by simp
next
  case (iter_step nr p c nr' p' c' ns s'')
  from body_Continue_bounds [OF iter_step.hyps(2)] iter_step.hyps(1)
  have "nr \<le> nr'" "nr' \<le> length p" "length p' = length p" by simp_all
  with iter_step.IH show ?case by simp
qed

lemma loop_exit:
  assumes "length p \<le> nr \<or> ReadAt_body H sf offset (nr, p, c) = Break"
  shows "ReadAt_loop (Suc fuel) H sf offset (nr, p, c) = Some (ReadAt_finish (nr, p, c))"
  using assms by (auto simp: ReadAt_loop.simps)

text \<open>A call that has returned within some fuel returns the same with more.\<close>

lemma ReadAt_loop_more_fuel:
  "ReadAt_loop fuel H sf offset s = Some out \<Longrightarrow> ReadAt_loop (fuel + k) H sf offset s = Some out"
proof (induction fuel arbitrary: s)
  case 0
  then show ?case by (cases s) (auto simp: ReadAt_loop.simps split: if_splits)
next
  case (Suc fuel)
  obtain nr p c where s: "s = (nr, p, c)" by (cases s)
  with Suc.prems Suc.IH show ?case
    by (cases "ReadAt_body H sf offset (nr, p, c)") (auto simp: ReadAt_loop.simps split: if_splits)
qed

subsection \<open>Two caches that agree\<close>

lemma length_used: "0 \<le> ChunkSize ce \<Longrightarrow> int (length (used H sf c ce)) = ChunkSize ce"
  by (auto simp: used_def cache_probe_def length_chunk_bytes split: option.splits if_splits)

lemma chunk_data_cases:
  "chunk_data H sf c p ce = Inl Panic
     \<and> cache_probe c (genID H (digest sf) (ChunkOffset ce) (ChunkSize ce)) (ChunkSize ce) = None
     \<and> ChunkSize ce < 0
   \<or> (\<exists>e. chunk_data H sf c p ce = Inl (Returns 0 (Some (Wrapped e ''failed to read data'' [])) p c))
   \<or> chunk_data H sf c p ce =
        Inr (used H sf c ce, c(genID H (digest sf) (ChunkOffset ce) (ChunkSize ce) \<mapsto> used H sf c ce))
      \<and> 0 \<le> ChunkSize ce"
proof (cases "cache_probe c (genID H (digest sf) (ChunkOffset ce) (ChunkSize ce)) (ChunkSize ce)")
  case None
  then show ?thesis
    by (cases "read_into (ra sf) (nat (ChunkSize ce)) (ChunkOffset ce)")
       (auto simp: chunk_data_def used_def chunk_bytes_def Add_def Wrap_def)
next
  case (Some d)
  then have "c (genID H (digest sf) (ChunkOffset ce) (ChunkSize ce)) = Some d"
      "int (length d) = ChunkSize ce"
    by (auto simp: cache_probe_def Fetch_def split: option.splits if_splits)
  then have "c(genID H (digest sf) (ChunkOffset ce) (ChunkSize ce) \<mapsto> d) = c" "0 \<le> ChunkSize ce"
    by (auto simp: fun_upd_idem)
  with Some show ?thesis by (simp add: chunk_data_def used_def)
qed

lemma truthful_used:
  "cache_truthful H sf c \<Longrightarrow> ChunkEntryForOffset (r sf) (name sf) off = Some ce \<Longrightarrow>
   used H sf c ce = chunk_bytes sf ce"
  by (auto simp: cache_truthful_def used_def cache_probe_def split: option.splits if_splits)

lemma truthful_agree: "cache_truthful H sf c1 \<Longrightarrow> cache_truthful H sf c2 \<Longrightarrow> agree H sf c1 c2"
  by (simp add: agree_def truthful_used)

lemma used_upd:
  "used H sf (c(k \<mapsto> u)) ce =
     (if genID H (digest sf) (ChunkOffset ce) (ChunkSize ce) = k
      then (if int (length u) = ChunkSize ce then u else chunk_bytes sf ce)
      else used H sf c ce)"
  by (simp add: used_def cache_probe_def Fetch_def)

lemma agree_upd: "agree H sf c1 c2 \<Longrightarrow> agree H sf (c1(k \<mapsto> u)) (c2(k \<mapsto> u))"
  by (simp add: agree_def used_upd)

lemma body_agree:
  assumes ag: "agree H sf c1 c2"
  shows "step_failed (ReadAt_body H sf offset (nr, p, c1))
     \<or> step_failed (ReadAt_body H sf offset (nr, p, c2))
     \<or> ReadAt_body H sf offset (nr, p, c1) = Break \<and> ReadAt_body H sf offset (nr, p, c2) = Break
     \<or> ReadAt_body H sf offset (nr, p, c1) = Return Panic
         \<and> ReadAt_body H sf offset (nr, p, c2) = Return Panic
     \<or> (\<exists>nr' p' c1' c2'. ReadAt_body H sf offset (nr, p, c1) = Continue (nr', p', c1')
           \<and> ReadAt_body H sf offset (nr, p, c2) = Continue (nr', p', c2') \<and> agree H sf c1' c2')"
proof (cases "ChunkEntryForOffset (r sf) (name sf) (int64 (offset + int nr))")
  case None
  then show ?thesis by (simp add: ReadAt_body_def)
next
  case (Some ce)
  let ?k = "genID H (digest sf) (ChunkOffset ce) (ChunkSize ce)"
  from ag Some have u: "used H sf c1 ce = used H sf c2 ce" by (auto simp: agree_def)
  have neg: "ChunkSize ce < 0 \<Longrightarrow> cache_probe c ?k (ChunkSize ce) = None" for c
    by (auto simp: cache_probe_def split: option.splits)
  from chunk_data_cases [of H sf c1 p ce] chunk_data_cases [of H sf c2 p ce]
  consider
      (f1) e where "chunk_data H sf c1 p ce = Inl (Returns 0 (Some (Wrapped e ''failed to read data'' [])) p c1)"
    | (f2) e where "chunk_data H sf c2 p ce = Inl (Returns 0 (Some (Wrapped e ''failed to read data'' [])) p c2)"
    | (pp) "chunk_data H sf c1 p ce = Inl Panic" "chunk_data H sf c2 p ce = Inl Panic"
    | (ok) "chunk_data H sf c1 p ce = Inr (used H sf c1 ce, c1(?k \<mapsto> used H sf c1 ce))"
           "chunk_data H sf c2 p ce = Inr (used H sf c2 ce, c2(?k \<mapsto> used H sf c2 ce))"
    by (auto simp: chunk_data_def neg)
  then show ?thesis
  proof cases
    case f1 with Some show ?thesis by (simp add: ReadAt_body_def)
  next
    case f2 with Some show ?thesis by (simp add: ReadAt_body_def)
  next
    case pp with Some show ?thesis by (simp add: ReadAt_body_def)
  next
    case ok
    with Some u agree_upd [OF ag, of ?k "used H sf c2 ce"] show ?thesis
      by (simp add: ReadAt_body_def Let_def)
  qed
qed

lemma loop_agree:
  "agree H sf c1 c2 \<Longrightarrow>
   read_failed (ReadAt_loop fuel H sf offset (nr, p, c1))
   \<or> read_failed (ReadAt_loop fuel H sf offset (nr, p, c2))
   \<or> observed (ReadAt_loop fuel H sf offset (nr, p, c1))
       = observed (ReadAt_loop fuel H sf offset (nr, p, c2))"
proof (induction fuel arbitrary: nr p c1 c2)
  case 0
  then show ?case by (simp add: ReadAt_loop.simps ReadAt_finish_def)
next
  case (Suc fuel)
  show ?case
  proof (cases "nr < length p")
    case False
    then show ?thesis by (simp add: ReadAt_loop.simps ReadAt_finish_def)
  next
    case True
    from body_agree [OF Suc.prems, of offset nr p] show ?thesis
    proof (elim disjE exE conjE)
      assume "step_failed (ReadAt_body H sf offset (nr, p, c1))"
      then have "read_failed (ReadAt_loop (Suc fuel) H sf offset (nr, p, c1))"
        using True by (auto simp: ReadAt_loop.simps elim: step_failed.elims)
      then show ?thesis by simp
    next
      assume "step_failed (ReadAt_body H sf offset (nr, p, c2))"
      then have "read_failed (ReadAt_loop (Suc fuel) H sf offset (nr, p, c2))"
        using True by (auto simp: ReadAt_loop.simps elim: step_failed.elims)
      then show ?thesis by simp
    next
      assume "ReadAt_body H sf offset (nr, p, c1) = Break" "ReadAt_body H sf offset (nr, p, c2) = Break"
      then show ?thesis using True by (simp add: ReadAt_loop.simps ReadAt_finish_def)
    next
      assume "ReadAt_body H sf offset (nr, p, c1) = Return Panic"
        "ReadAt_body H sf offset (nr, p, c2) = Return Panic"
      then show ?thesis using True by (simp add: ReadAt_loop.simps)
    next
      fix nr' p' c1' c2'
      assume "ReadAt_body H sf offset (nr, p, c1) = Continue (nr', p', c1')"
        "ReadAt_body H sf offset (nr, p, c2) = Continue (nr', p', c2')" "agree H sf c1' c2'"
      then show ?thesis using True Suc.IH [of c1' c2' nr' p'] by (simp add: ReadAt_loop.simps)
    qed
  qed
qed

subsection \<open>What the iterations write\<close>

text \<open>
  An iteration that goes on has written \<open>copied\<close> into the buffer at \<open>nr\<close> and nothing
  else; a run of iterations has written the segments one after the other from the start
  of the buffer.  Every run of \<open>ReadAt_iter\<close> is such a run.
\<close>

lemma chunk_data_used:
  assumes "chunk_data H sf c p ce = Inr (data, c')"
  shows "data = used H sf c ce"
  using assms chunk_data_cases [of H sf c p ce] by auto

lemma body_Continue_copied:
  assumes "nr < length p"
    and "ReadAt_body H sf offset (nr, p, c) = Continue (nr', p', c')"
    and "ChunkEntryForOffset (r sf) (name sf) (int64 (offset + int nr)) = Some ce"
  shows "nr' = nr + length (copied H sf offset (nr, p, c) ce)
    \<and> p' = take nr p @ copied H sf offset (nr, p, c) ce @ drop nr' p
    \<and> nr' \<le> length p"
  using assms(2)
proof (rule body_Continue)
  fix ce' :: TOCEntry and data
  let ?k = "nat (int64 (int64 (offset + int nr) - ChunkOffset ce'))"
  let ?seg = "copied H sf offset (nr, p, c) ce"
  assume ce': "ChunkEntryForOffset (r sf) (name sf) (int64 (offset + int nr)) = Some ce'"
    and cd: "chunk_data H sf c p ce' = Inr (data, c')"
    and n: "nr' = nr + min (length p - nr) (length data - ?k)"
    and p': "p' = take nr p @ take (nr' - nr) (drop ?k data) @ drop nr' p"
  from ce' assms(3) have ce: "ce' = ce" by simp
  from chunk_data_used [OF cd] ce have d: "data = used H sf c ce" by simp
  have seg: "?seg = take (length p - nr) (drop ?k data)"
    by (simp add: copied_def d ce)
  have len: "length ?seg = min (length p - nr) (length data - ?k)"
    by (simp add: seg min.commute)
  have "take (nr' - nr) (drop ?k data) = take (length p - nr) (drop ?k data)"
  proof (cases "length p - nr \<le> length data - ?k")
    case True
    with n show ?thesis by simp
  next
    case False
    with n show ?thesis by simp
  qed
  with p' seg have 1: "p' = take nr p @ ?seg @ drop nr' p" by simp
  from n len have 2: "nr' = nr + length ?seg" by simp
  from n assms(1) have 3: "nr' \<le> length p" by simp
  from 1 2 3 show ?thesis by blast
qed

lemma copies_loop:
  "ReadAt_copies H sf offset s segs s' \<Longrightarrow>
   ReadAt_loop (length segs + fuel) H sf offset s = ReadAt_loop fuel H sf offset s'"
proof (induction rule: ReadAt_copies.induct)
  case (copies_done s)
  then show ?case by simp
next
  case (copies_step nr p c s' ce segs s'')
  then show ?case by (cases s') (simp add: ReadAt_loop.simps)
qed

lemma copies_buffer:
  "ReadAt_copies H sf offset s segs s' \<Longrightarrow> fst s \<le> length (fst (snd s)) \<Longrightarrow>
   fst s' = fst s + length (concat segs) \<and> fst s' \<le> length (fst (snd s))
   \<and> fst (snd s') = take (fst s) (fst (snd s)) @ concat segs @ drop (fst s') (fst (snd s))"
proof (induction rule: ReadAt_copies.induct)
  case (copies_done s)
  then show ?case by simp
next
  case (copies_step nr p c s' ce segs s'')
  obtain nr1 p1 c1 where s': "s' = (nr1, p1, c1)" by (cases s')
  let ?seg = "copied H sf offset (nr, p, c) ce"
  from body_Continue_copied [OF copies_step.hyps(1) copies_step.hyps(2) [unfolded s'] copies_step.hyps(3)]
  have n1: "nr1 = nr + length ?seg" and p1: "p1 = take nr p @ ?seg @ drop nr1 p" and b1: "nr1 \<le> length p"
    by simp_all
  from p1 n1 b1 copies_step.hyps(1) have l1: "length p1 = length p" by simp
  from copies_step.IH s' l1 b1
  have n2: "fst s'' = nr1 + length (concat segs)" and b2: "fst s'' \<le> length p"
    and p2: "fst (snd s'') = take nr1 p1 @ concat segs @ drop (fst s'') p1"
    by simp_all
  have t: "take nr1 p1 = take nr p @ ?seg"
    using p1 n1 copies_step.hyps(1) by simp
  have d: "drop (fst s'') p1 = drop (fst s'') p"
  proof -
    have "drop (fst s'') p1 = drop (fst s'' - nr1) (drop nr1 p1)"
      using n2 by (simp add: add.commute)
    also have "drop nr1 p1 = drop nr1 p"
      using p1 n1 copies_step.hyps(1) by simp
    also have "drop (fst s'' - nr1) (drop nr1 p) = drop (fst s'') p"
      using n2 by (simp add: add.commute)
    finally show ?thesis .
  qed
  from n1 n2 b2 p2 t d show ?case by simp
qed

lemma iter_copies:
  "ReadAt_iter H sf offset s ns s' \<Longrightarrow> \<exists>segs. ReadAt_copies H sf offset s segs s' \<and> map length segs = ns"
proof (induction rule: ReadAt_iter.induct)
  case (iter_done s)
  have "ReadAt_copies H sf offset s [] s \<and> map length [] = ([]::nat list)"
    by (simp add: copies_done)
  then show ?case by blast
next
  case (iter_step nr p c nr' p' c' ns s'')
  from iter_step.IH obtain segs where segs: "ReadAt_copies H sf offset (nr', p', c') segs s''"
    "map length segs = ns" by blast
  from iter_step.hyps(2) obtain ce :: TOCEntry where
    ce: "ChunkEntryForOffset (r sf) (name sf) (int64 (offset + int nr)) = Some ce"
    by (rule body_Continue)
  from body_Continue_copied [OF iter_step.hyps(1,2) ce]
  have "nr' - nr = length (copied H sf offset (nr, p, c) ce)" by simp
  with segs copies_step [OF iter_step.hyps(1,2) ce segs(1)]
  have "ReadAt_copies H sf offset (nr, p, c) (copied H sf offset (nr, p, c) ce # segs) s''
      \<and> map length (copied H sf offset (nr, p, c) ce # segs) = (nr' - nr) # ns"
    by simp
  then show ?case ..
qed

subsection \<open>The theorems about \<^verbatim>\<open>file.ReadAt\<close>\<close>

text \<open>
  C1.  The cache is a pure performance layer.  Take any file, buffer and offset and two
  caches, each of which holds, under every chunk ID of the file it has an entry for,
  exactly the true bytes of that chunk.  Whatever mix of hits and misses the two caches
  give, the two calls of \<^verbatim>\<open>ReadAt\<close> return the same count and leave the same bytes in the
  buffer (and agree on whether they return at all), as long as the misses are served,
  that is neither call ends in the error of the underlying reader.
\<close>

theorem ReadAt_cache_transparent:
  assumes "cache_truthful H sf c1" and "cache_truthful H sf c2"
    and "\<not> read_failed (ReadAt fuel H sf c1 p offset)"
    and "\<not> read_failed (ReadAt fuel H sf c2 p offset)"
  shows "observed (ReadAt fuel H sf c1 p offset) = observed (ReadAt fuel H sf c2 p offset)"
  using loop_agree [OF truthful_agree [OF assms(1,2)], of fuel offset 0 p] assms(3,4)
  by (simp add: ReadAt_def)

lemma ex_truthful_empty: "cache_truthful ex_hash ex_file Map.empty"
  by (simp add: cache_truthful_def Fetch_def)

lemma ex_truthful_first: "cache_truthful ex_hash ex_file [''d-0-4'' \<mapsto> [1, 2, 3, 4]]"
  by (auto simp: cache_truthful_def Fetch_def ex_file_def ex_toc_def genID_ex chunk_bytes_def
      read_into_def content_reader_def Let_def split: if_splits)

lemma ex_run_empty:
  "ReadAt 5 ex_hash ex_file Map.empty [0, 0, 0, 0, 0, 0] 1
     = Some (Returns 6 None [2, 3, 4, 5, 6, 7] [''d-0-4'' \<mapsto> [1, 2, 3, 4], ''d-4-4'' \<mapsto> [5, 6, 7, 8]])"
  by (simp add: ReadAt_def ReadAt_loop.simps ReadAt_finish_def ex_defs)

lemma ex_run_first:
  "ReadAt 5 ex_hash ex_file [''d-0-4'' \<mapsto> [1, 2, 3, 4]] [0, 0, 0, 0, 0, 0] 1
     = Some (Returns 6 None [2, 3, 4, 5, 6, 7] [''d-0-4'' \<mapsto> [1, 2, 3, 4], ''d-4-4'' \<mapsto> [5, 6, 7, 8]])"
  by (simp add: ReadAt_def ReadAt_loop.simps ReadAt_finish_def ex_defs)

text \<open>
  The file of two chunks read at offset 1 into six bytes: once with the empty cache (two
  misses), once with the first chunk cached (a hit and a miss).
\<close>

theorem ReadAt_cache_transparent_witness:
  "cache_truthful ex_hash ex_file Map.empty
   \<and> cache_truthful ex_hash ex_file [''d-0-4'' \<mapsto> [1, 2, 3, 4]]
   \<and> observed (ReadAt 5 ex_hash ex_file Map.empty [0, 0, 0, 0, 0, 0] 1)
       = observed (ReadAt 5 ex_hash ex_file [''d-0-4'' \<mapsto> [1, 2, 3, 4]] [0, 0, 0, 0, 0, 0] 1)
   \<and> observed (ReadAt 5 ex_hash ex_file Map.empty [0, 0, 0, 0, 0, 0] 1)
       = Some (Some (6, None, [2, 3, 4, 5, 6, 7]))"
proof -
  have n1: "\<not> read_failed (ReadAt 5 ex_hash ex_file Map.empty [0, 0, 0, 0, 0, 0] 1)"
    by (simp add: ex_run_empty)
  have n2: "\<not> read_failed (ReadAt 5 ex_hash ex_file [''d-0-4'' \<mapsto> [1, 2, 3, 4]] [0, 0, 0, 0, 0, 0] 1)"
    by (simp add: ex_run_first)
  from ReadAt_cache_transparent [OF ex_truthful_empty ex_truthful_first n1 n2]
  show ?thesis by (simp add: ex_truthful_empty ex_truthful_first ex_run_empty)
qed

text \<open>
  C2, as amended.  In every iteration of the loop of \<^verbatim>\<open>ReadAt\<close> that reaches the copy,
  the cursor \<open>nr\<close> advances by the number of bytes copied: what is left of the chunk from
  the current position on, \<open>ChunkSize - (offset + nr - ChunkOffset)\<close>, cut down to the room
  left in the buffer, \<open>len(p) - nr\<close>.  It does not advance by \<open>ChunkSize\<close>.  These are
  bytes copied: the buffer after the iteration is the one before it with exactly the
  positions from the old cursor up to the new one overwritten, by the bytes of the chunk
  (the cached ones on a hit, the reader's on a miss) from the index
  \<open>offset + nr - ChunkOffset\<close> on.
\<close>

theorem ReadAt_body_advances_by_copied:
  assumes "nr < length p"
    and "ReadAt_body H sf offset (nr, p, c) = Continue (nr', p', c')"
    and "ChunkEntryForOffset (r sf) (name sf) (int64 (offset + int nr)) = Some ce"
  shows "int nr' = int nr + min (int (length p) - int nr)
                              (ChunkSize ce - int64 (int64 (offset + int nr) - ChunkOffset ce))
    \<and> p' = take nr p
           @ take (nr' - nr)
               (drop (nat (int64 (int64 (offset + int nr) - ChunkOffset ce))) (used H sf c ce))
           @ drop nr' p
    \<and> length p' = length p
    \<and> int (length (used H sf c ce)) = ChunkSize ce"
  using assms(2)
proof (rule body_Continue)
  fix ce' :: TOCEntry and data
  assume ce': "ChunkEntryForOffset (r sf) (name sf) (int64 (offset + int nr)) = Some ce'"
    and cd: "chunk_data H sf c p ce' = Inr (data, c')"
    and k: "0 \<le> int64 (int64 (offset + int nr) - ChunkOffset ce')"
      "int64 (int64 (offset + int nr) - ChunkOffset ce') \<le> int (length data)"
    and n: "nr' = nr + min (length p - nr)
              (length data - nat (int64 (int64 (offset + int nr) - ChunkOffset ce')))"
    and p': "p' = take nr p
        @ take (nr' - nr) (drop (nat (int64 (int64 (offset + int nr) - ChunkOffset ce'))) data)
        @ drop nr' p"
  from ce' assms(3) have [simp]: "ce' = ce" by simp
  from chunk_data_length [OF cd] have len: "int (length data) = ChunkSize ce" by simp
  from chunk_data_used [OF cd] have d: "data = used H sf c ce" by simp
  from len k n assms(1)
  have a: "int nr' = int nr + min (int (length p) - int nr)
                              (ChunkSize ce - int64 (int64 (offset + int nr) - ChunkOffset ce))"
    by (auto simp: min_def)
  from p' d have b: "p' = take nr p
           @ take (nr' - nr)
               (drop (nat (int64 (int64 (offset + int nr) - ChunkOffset ce))) (used H sf c ce))
           @ drop nr' p"
    by simp
  from body_Continue_bounds [OF assms(2)] assms(1) have l: "length p' = length p" by simp
  from len d have u: "int (length (used H sf c ce)) = ChunkSize ce" by simp
  from a b l u show ?thesis by blast
qed

text \<open>
  C2 as stated fails: with a buffer of two bytes at offset 0, the chunk found has
  \<open>ChunkSize = 4\<close> and the iteration moves the cursor from 0 to 2.
\<close>

theorem ReadAt_body_advances_by_ChunkSize_counterexample:
  "ChunkEntryForOffset (r ex_file) (name ex_file) (int64 (0 + int 0))
     = Some \<lparr>Digest = ''d'', Offset = 0, ChunkOffset = 0, ChunkSize = 4\<rparr>
   \<and> ReadAt_body ex_hash ex_file 0 (0, [0, 0], Map.empty)
     = Continue (2, [1, 2], [''d-0-4'' \<mapsto> [1, 2, 3, 4]])"
  by (simp add: ex_defs)

text \<open>
  The iteration on a buffer of two bytes at offset 0: the first two bytes of the chunk
  \<^verbatim>\<open>1, 2, 3, 4\<close> are in the buffer and the cursor is at 2.
\<close>

lemma ex_used_first: "used ex_hash ex_file Map.empty (ex_chunk 0) = [1, 2, 3, 4]"
  by (simp add: used_def chunk_bytes_def ex_chunk_def ex_defs)

theorem ReadAt_body_advances_by_copied_witness:
  "ReadAt_body ex_hash ex_file 0 (0, [0, 0], Map.empty)
     = Continue (2, [1, 2], [''d-0-4'' \<mapsto> [1, 2, 3, 4]])
   \<and> int 2 = int 0 + min (int (length [0::byte, 0]) - int 0)
                 (ChunkSize (ex_chunk 0) - int64 (int64 (0 + int 0) - ChunkOffset (ex_chunk 0)))
   \<and> [1, 2 :: byte]
       = take 0 [0, 0]
         @ take (2 - 0) (drop (nat (int64 (int64 (0 + int 0) - ChunkOffset (ex_chunk 0))))
                           (used ex_hash ex_file Map.empty (ex_chunk 0)))
         @ drop 2 [0, 0]
   \<and> used ex_hash ex_file Map.empty (ex_chunk 0) = [1, 2, 3, 4]
   \<and> ChunkSize (ex_chunk 0) = 4"
proof -
  have a: "0 < length [0::byte, 0]" by simp
  have b: "ReadAt_body ex_hash ex_file 0 (0, [0, 0], Map.empty)
     = Continue (2, [1, 2], [''d-0-4'' \<mapsto> [1, 2, 3, 4]])"
    by (simp add: ex_defs)
  have c: "ChunkEntryForOffset (r ex_file) (name ex_file) (int64 (0 + int 0)) = Some (ex_chunk 0)"
    by (simp add: ex_defs ex_chunk_def)
  from ReadAt_body_advances_by_copied [OF a b c] b ex_used_first show ?thesis
    by (simp add: ex_chunk_def)
qed

text \<open>
  C3.  When the loop ends after some iterations without an error of the underlying
  reader, because the buffer is full or because the TOC has no chunk for the current
  position, \<^verbatim>\<open>ReadAt\<close> returns \<open>(nr, nil)\<close>, and \<open>nr\<close> is the number of bytes it has
  copied into the caller's buffer: the buffer returned starts with the bytes of the
  chunks that the iterations had to copy, one segment after the other, \<open>nr\<close> bytes in
  all, and from \<open>nr\<close> on it is as the caller handed it in.  The call does return: one
  unit of fuel beyond the iterations done is enough.
\<close>

theorem ReadAt_returns_nr:
  assumes "ReadAt_copies H sf offset (0, p, c) segs (nr, p', c')"
    and "length p' \<le> nr \<or> ReadAt_body H sf offset (nr, p', c') = Break"
  shows "ReadAt (Suc (length segs + fuel)) H sf c p offset = Some (Returns (int nr) None p' c')
    \<and> nr = length (concat segs) \<and> nr = sum_list (map length segs)
    \<and> p' = concat segs @ drop nr p \<and> length p' = length p"
proof -
  from copies_buffer [OF assms(1)]
  have b: "nr = length (concat segs)" "nr \<le> length p" "p' = concat segs @ drop nr p"
    by simp_all
  then have l: "length p' = length p" by simp
  from copies_loop [OF assms(1), of "Suc fuel"] loop_exit [OF assms(2), of fuel]
  have "ReadAt (Suc (length segs + fuel)) H sf c p offset = Some (ReadAt_finish (nr, p', c'))"
    by (simp add: ReadAt_def)
  with b l show ?thesis by (simp add: ReadAt_finish_def length_concat)
qed

text \<open>
  Eight bytes asked for at offset 2 of the file of eight bytes: two bytes of the first
  chunk, the four of the second, and a short read at the end of the file.
\<close>

lemma ex_copied:
  "copied ex_hash ex_file 2 (0, [0, 0, 0, 0, 0, 0, 0, 0], Map.empty) (ex_chunk 0) = [3, 4]"
  "copied ex_hash ex_file 2 (2, [3, 4, 0, 0, 0, 0, 0, 0], [''d-0-4'' \<mapsto> [1, 2, 3, 4]]) (ex_chunk 4)
     = [5, 6, 7, 8]"
  by (simp_all add: copied_def used_def chunk_bytes_def ex_chunk_def ex_defs)

lemma ex_copies_across:
  "ReadAt_copies ex_hash ex_file 2 (0, [0, 0, 0, 0, 0, 0, 0, 0], Map.empty) [[3, 4], [5, 6, 7, 8]]
     (6, [3, 4, 5, 6, 7, 8, 0, 0], [''d-0-4'' \<mapsto> [1, 2, 3, 4], ''d-4-4'' \<mapsto> [5, 6, 7, 8]])"
proof -
  have "ReadAt_copies ex_hash ex_file 2 (0, [0, 0, 0, 0, 0, 0, 0, 0], Map.empty)
     [copied ex_hash ex_file 2 (0, [0, 0, 0, 0, 0, 0, 0, 0], Map.empty) (ex_chunk 0),
      copied ex_hash ex_file 2 (2, [3, 4, 0, 0, 0, 0, 0, 0], [''d-0-4'' \<mapsto> [1, 2, 3, 4]]) (ex_chunk 4)]
     (6, [3, 4, 5, 6, 7, 8, 0, 0], [''d-0-4'' \<mapsto> [1, 2, 3, 4], ''d-4-4'' \<mapsto> [5, 6, 7, 8]])"
  proof (rule copies_step)
    show "0 < length [0, 0, 0, 0, 0, 0, 0, 0 :: byte]" by simp
    show "ReadAt_body ex_hash ex_file 2 (0, [0, 0, 0, 0, 0, 0, 0, 0], Map.empty)
        = Continue (2, [3, 4, 0, 0, 0, 0, 0, 0], [''d-0-4'' \<mapsto> [1, 2, 3, 4]])"
      by (simp add: ex_defs)
    show "ChunkEntryForOffset (r ex_file) (name ex_file) (int64 (2 + int 0)) = Some (ex_chunk 0)"
      by (simp add: ex_defs ex_chunk_def)
    show "ReadAt_copies ex_hash ex_file 2 (2, [3, 4, 0, 0, 0, 0, 0, 0], [''d-0-4'' \<mapsto> [1, 2, 3, 4]])
       [copied ex_hash ex_file 2 (2, [3, 4, 0, 0, 0, 0, 0, 0], [''d-0-4'' \<mapsto> [1, 2, 3, 4]]) (ex_chunk 4)]
       (6, [3, 4, 5, 6, 7, 8, 0, 0], [''d-0-4'' \<mapsto> [1, 2, 3, 4], ''d-4-4'' \<mapsto> [5, 6, 7, 8]])"
    proof (rule copies_step [OF _ _ _ copies_done])
      show "2 < length [3, 4, 0, 0, 0, 0, 0, 0 :: byte]" by simp
      show "ReadAt_body ex_hash ex_file 2 (2, [3, 4, 0, 0, 0, 0, 0, 0], [''d-0-4'' \<mapsto> [1, 2, 3, 4]])
          = Continue (6, [3, 4, 5, 6, 7, 8, 0, 0],
              [''d-0-4'' \<mapsto> [1, 2, 3, 4], ''d-4-4'' \<mapsto> [5, 6, 7, 8]])"
        by (simp add: ex_defs)
      show "ChunkEntryForOffset (r ex_file) (name ex_file) (int64 (2 + int 2)) = Some (ex_chunk 4)"
        by (simp add: ex_defs ex_chunk_def)
    qed
  qed
  then show ?thesis by (simp only: ex_copied)
qed

theorem ReadAt_returns_nr_witness:
  "ReadAt (Suc (length [[3, 4], [5, 6, 7, 8 :: byte]] + 0)) ex_hash ex_file Map.empty
      [0, 0, 0, 0, 0, 0, 0, 0] 2
     = Some (Returns (int 6) None [3, 4, 5, 6, 7, 8, 0, 0]
               [''d-0-4'' \<mapsto> [1, 2, 3, 4], ''d-4-4'' \<mapsto> [5, 6, 7, 8]])
   \<and> (6::nat) = length (concat [[3, 4], [5, 6, 7, 8 :: byte]])
   \<and> (6::nat) = sum_list (map length [[3, 4], [5, 6, 7, 8 :: byte]])
   \<and> [3, 4, 5, 6, 7, 8, 0, 0 :: byte]
       = concat [[3, 4], [5, 6, 7, 8]] @ drop 6 [0, 0, 0, 0, 0, 0, 0, 0]
   \<and> length [3, 4, 5, 6, 7, 8, 0, 0 :: byte] = length [0, 0, 0, 0, 0, 0, 0, 0 :: byte]"
proof -
  have e: "length [3, 4, 5, 6, 7, 8, 0, 0 :: byte] \<le> 6
     \<or> ReadAt_body ex_hash ex_file 2
          (6, [3, 4, 5, 6, 7, 8, 0, 0], [''d-0-4'' \<mapsto> [1, 2, 3, 4], ''d-4-4'' \<mapsto> [5, 6, 7, 8]]) = Break"
    by (simp add: ex_defs)
  from ReadAt_returns_nr [OF ex_copies_across e, of 0] show ?thesis .
qed

text \<open>
  C10.  When, after any number of iterations, the chunk at the current position misses
  in the cache and the underlying reader returns an error other than \<^verbatim>\<open>io.EOF\<close> for
  it, \<^verbatim>\<open>ReadAt\<close> returns the count 0 with that error (wrapped), whatever \<open>nr\<close> had been
  reached; the cache is the one the iteration started with, so the chunk has not been
  added.
\<close>

theorem ReadAt_read_error:
  assumes "ReadAt_iter H sf offset (0, p, c) ns (nr, p', c')"
    and "nr < length p'"
    and "ChunkEntryForOffset (r sf) (name sf) (int64 (offset + int nr)) = Some ce"
    and "cache_probe c' (genID H (digest sf) (ChunkOffset ce) (ChunkSize ce)) (ChunkSize ce) = None"
    and "0 \<le> ChunkSize ce"
    and "snd (ra sf (nat (ChunkSize ce)) (ChunkOffset ce)) = Some e" and "e \<noteq> EOF"
  shows "ReadAt (Suc (length ns + fuel)) H sf c p offset
     = Some (Returns 0 (Some (Wrapped e ''failed to read data'' [])) p' c')"
proof -
  from assms(6) have "snd (read_into (ra sf) (nat (ChunkSize ce)) (ChunkOffset ce)) = Some e"
    by (cases "ra sf (nat (ChunkSize ce)) (ChunkOffset ce)") (simp add: read_into_def Let_def)
  with assms(4,5,7)
  have "chunk_data H sf c' p' ce = Inl (Returns 0 (Some (Wrapped e ''failed to read data'' [])) p' c')"
    by (auto simp: chunk_data_def Wrap_def split: prod.splits)
  with assms(3)
  have "ReadAt_body H sf offset (nr, p', c')
      = Return (Returns 0 (Some (Wrapped e ''failed to read data'' [])) p' c')"
    by (simp add: ReadAt_body_def)
  with assms(2) iter_loop [OF assms(1), of "Suc fuel"] show ?thesis
    by (simp add: ReadAt_def ReadAt_loop.simps)
qed

text \<open>
  The reader breaks down on the second chunk: the first four bytes are in the buffer and
  in the cache, the count returned is 0.
\<close>

lemma ex_iter_broken:
  "ReadAt_iter ex_hash ex_broken_file 0 (0, [0, 0, 0, 0, 0, 0], Map.empty) [4 - 0]
     (4, [1, 2, 3, 4, 0, 0], [''d-0-4'' \<mapsto> [1, 2, 3, 4]])"
  by (rule iter_step [OF _ _ iter_done]) (simp_all add: ex_defs)

theorem ReadAt_read_error_witness:
  "ReadAt (Suc (length [4 - 0 :: nat] + 0)) ex_hash ex_broken_file Map.empty [0, 0, 0, 0, 0, 0] 0
     = Some (Returns 0 (Some (Wrapped (Errorf ''connection reset'' []) ''failed to read data'' []))
               [1, 2, 3, 4, 0, 0] [''d-0-4'' \<mapsto> [1, 2, 3, 4]])"
proof -
  have a: "4 < length [1, 2, 3, 4, 0, 0 :: byte]" by simp
  have b: "ChunkEntryForOffset (r ex_broken_file) (name ex_broken_file) (int64 (0 + int 4))
     = Some \<lparr>Digest = ''d'', Offset = 0, ChunkOffset = 4, ChunkSize = 4\<rparr>"
    by (simp add: ex_defs)
  have c: "cache_probe [''d-0-4'' \<mapsto> [1, 2, 3, 4]]
       (genID ex_hash (digest ex_broken_file)
          (ChunkOffset \<lparr>Digest = ''d'', Offset = 0, ChunkOffset = 4, ChunkSize = 4\<rparr>)
          (ChunkSize \<lparr>Digest = ''d'', Offset = 0, ChunkOffset = 4, ChunkSize = 4\<rparr>))
       (ChunkSize \<lparr>Digest = ''d'', Offset = 0, ChunkOffset = 4, ChunkSize = 4\<rparr>) = None"
    by (simp add: ex_defs)
  have d: "0 \<le> ChunkSize \<lparr>Digest = ''d'', Offset = 0, ChunkOffset = 4, ChunkSize = 4\<rparr>" by simp
  have e: "snd (ra ex_broken_file
        (nat (ChunkSize \<lparr>Digest = ''d'', Offset = 0, ChunkOffset = 4, ChunkSize = 4\<rparr>))
        (ChunkOffset \<lparr>Digest = ''d'', Offset = 0, ChunkOffset = 4, ChunkSize = 4\<rparr>))
      = Some (Errorf ''connection reset'' [])"
    by (simp add: ex_defs)
  have f: "Errorf ''connection reset'' [] \<noteq> EOF" by simp
  from ReadAt_read_error [OF ex_iter_broken a b c d e f, of 0] show ?thesis .
qed

section \<open>Properties of \<^verbatim>\<open>fetcher.fetch\<close>\<close>

subsection \<open>The \<^verbatim>\<open>Range\<close> header\<close>

lemma foldl_ranges:
  "foldl (\<lambda>ranges reg. ranges @ g reg @ '','') acc reqs = acc @ concat (map (\<lambda>reg. g reg @ '','') reqs)"
  by (induction reqs arbitrary: acc) simp_all

lemma comma_join_Cons: "comma_join (x # xs) = x @ concat (map (\<lambda>y. '','' @ y) xs)"
  by (induction xs arbitrary: x) simp_all

lemma butlast_ranges:
  "butlast (a @ '','' @ concat (map (\<lambda>reg. g reg @ '','') reqs)) = a @ concat (map (\<lambda>reg. '','' @ g reg) reqs)"
proof (induction reqs arbitrary: a)
  case Nil
  then show ?case by (simp add: butlast_append)
next
  case (Cons x reqs)
  from Cons [of "a @ '','' @ g x"] show ?case by simp
qed

lemma Range_header_spec: "Range_header requests = spec_Range_header requests"
proof -
  have "Range_header requests
      = butlast (''bytes=0-0'' @ '','' @ concat (map (\<lambda>reg. (fmt_d (reg_b reg) @ ''-'' @ fmt_d (reg_e reg)) @ '','') requests))"
    unfolding Range_header_def
    using foldl_ranges [of "\<lambda>reg. fmt_d (reg_b reg) @ ''-'' @ fmt_d (reg_e reg)" "''bytes=0-0,''" requests]
    by simp
  also have "\<dots> = ''bytes=0-0'' @ concat (map (\<lambda>reg. '','' @ fmt_d (reg_b reg) @ ''-'' @ fmt_d (reg_e reg)) requests)"
    by (rule butlast_ranges)
  also have "\<dots> = spec_Range_header requests"
    by (simp add: spec_Range_header_def comma_join_Cons comp_def)
  finally show ?thesis .
qed

lemma digits_two: "10 \<le> n \<Longrightarrow> n < 100 \<Longrightarrow> digits n = [digit (n div 10), digit n]"
  by (subst digits.simps) (simp add: digits_small)

lemma spec_Range_header_ex:
  "spec_Range_header [Region 10 19, Region 40 49] = ''bytes=0-0,10-19,40-49''"
  by (simp add: spec_Range_header_def fmt_d_def digits_two digit_def)

text \<open>
  C6.  For every list of requested regions, \<^verbatim>\<open>fetch\<close> hands exactly one request to the
  transport, a \<^verbatim>\<open>GET\<close> of the fetcher's URL (which \<^verbatim>\<open>http.NewRequest\<close> has to
  accept), whose \<^verbatim>\<open>Range\<close> header is \<^verbatim>\<open>bytes=0-0\<close> followed by each requested
  region as \<^verbatim>\<open>b-e\<close>, in the order of the request, joined by commas with no comma at
  the end.  For the regions \<^verbatim>\<open>{10,19}\<close> and \<^verbatim>\<open>{40,49}\<close> the header is
  \<^verbatim>\<open>bytes=0-0,10-19,40-49\<close>.
\<close>

theorem fetch_Range_header:
  assumes "url_Parse L (f_url f) = None"
  shows "map Method (fst (fetch L f opt requests)) = [''GET'']
    \<and> map URL (fst (fetch L f opt requests)) = [f_url f]
    \<and> map (\<lambda>req. Header_Get (ReqHeader req) ''Range'') (fst (fetch L f opt requests))
        = [spec_Range_header requests]
    \<and> (requests = [Region 10 19, Region 40 49] \<longrightarrow>
         map (\<lambda>req. Header_Get (ReqHeader req) ''Range'') (fst (fetch L f opt requests))
           = [''bytes=0-0,10-19,40-49''])"
proof -
  have "map (\<lambda>req. Header_Get (ReqHeader req) ''Range'') (fst (fetch L f opt requests))
        = [Range_header requests]
     \<and> map Method (fst (fetch L f opt requests)) = [''GET'']
     \<and> map URL (fst (fetch L f opt requests)) = [f_url f]"
    using assms
    by (auto simp: fetch_def NewRequest_def Let_def Header_Add_def Header_Get_def
        split: sum.splits prod.splits option.splits)
  then show ?thesis by (auto simp: Range_header_spec spec_Range_header_ex)
qed

theorem fetch_Range_header_witness:
  "map Method (fst (fetch ex_lib ex_fetcher \<lparr>opt_tr = None\<rparr> [Region 10 19, Region 40 49])) = [''GET'']
   \<and> map URL (fst (fetch ex_lib ex_fetcher \<lparr>opt_tr = None\<rparr> [Region 10 19, Region 40 49]))
       = [''https://B/v2/repo/blobs/dg'']
   \<and> map (\<lambda>req. Header_Get (ReqHeader req) ''Range'')
        (fst (fetch ex_lib ex_fetcher \<lparr>opt_tr = None\<rparr> [Region 10 19, Region 40 49]))
       = [''bytes=0-0,10-19,40-49'']"
proof -
  have a: "url_Parse ex_lib (f_url ex_fetcher) = None" by (simp add: ex_lib_def)
  from fetch_Range_header [OF a, of "\<lparr>opt_tr = None\<rparr>" "[Region 10 19, Region 40 49]"]
  have "map Method (fst (fetch ex_lib ex_fetcher \<lparr>opt_tr = None\<rparr> [Region 10 19, Region 40 49])) = [''GET'']"
    and "map URL (fst (fetch ex_lib ex_fetcher \<lparr>opt_tr = None\<rparr> [Region 10 19, Region 40 49]))
       = [f_url ex_fetcher]"
    and "map (\<lambda>req. Header_Get (ReqHeader req) ''Range'')
        (fst (fetch ex_lib ex_fetcher \<lparr>opt_tr = None\<rparr> [Region 10 19, Region 40 49]))
       = [''bytes=0-0,10-19,40-49'']"
    by blast+
  then show ?thesis by (simp add: ex_fetcher_def)
qed

subsection \<open>The answer with status 200\<close>

lemma ParseInt_100: "ParseInt ''100'' = Inr 100"
  by (simp add: ParseInt_def digit_val_def)

lemma fetch_response_200:
  assumes "StatusCode res = 200" and "ReadAll (Body res) = (data, None)"
    and "ParseInt (Header_Get (ResHeader res) ''Content-Length'') = Inr sz"
  shows "fetch_response L f res =
     (if int (length data) \<noteq> sz then (None, None)
      else (Some [Region 0 (int64 (sz - 1)) \<mapsto> data], None))"
  using assms by (simp add: fetch_response_def)

text \<open>
  C7.  With status 200, \<^verbatim>\<open>fetch\<close> reads the whole body and compares its length with the
  parsed \<^verbatim>\<open>Content-Length\<close>.  Where they are equal the result is the one entry keyed
  by \<^verbatim>\<open>{0, size - 1}\<close>.  Where they differ an error is due, and the code
  means to give one, but it wraps the variable \<^verbatim>\<open>err\<close> that is nil at that point:
  \<^verbatim>\<open>errors.Wrapf\<close> of nil is nil.  On a body of 99 bytes declared as 100 the call
  returns no data and no error.
\<close>

theorem fetch_200_short_body_no_error:
  "snd (fetch ex_lib ex_fetcher \<lparr>opt_tr = Some (whole_blob 99)\<rparr> [Region 10 19]) = (None, None)"
  by (simp add: fetch_def ex_lib_def ex_fetcher_def NewRequest_def whole_blob_def fetch_response_def
      ReadAll_def Header_Get_def ParseInt_100 Let_def)

text \<open>The same answer with the 100 bytes declared.\<close>

lemma fetch_200_whole_body:
  "snd (fetch ex_lib ex_fetcher \<lparr>opt_tr = Some (whole_blob 100)\<rparr> [Region 10 19])
     = (Some [Region 0 99 \<mapsto> replicate 100 7], None)"
  by (simp add: fetch_def ex_lib_def ex_fetcher_def NewRequest_def whole_blob_def fetch_response_def
      ReadAll_def Header_Get_def ParseInt_100 Let_def int64_def)

section \<open>Properties of the resolver\<close>

subsection \<open>One host, and the loop over the hosts\<close>

lemma resolveReference_pool:
  assumes "resolveReference L rs nr dg = (rs', Inr u)"
  shows "trPool rs' (ref_Name nr) \<noteq> None"
  using assms
  by (auto simp: resolveReference_def Let_def split: option.splits sum.splits)

lemma resolve_host_skip:
  "Host h = [] \<or> CHR ''/'' \<in> set (Host h) \<Longrightarrow>
   resolve_host L rs named dg h = (rs, Inl (''host %q: mirror must be a domain name'', [ArgS (Host h)]))"
  by (auto simp: resolve_host_def)

lemma resolve_host_win:
  assumes "Host h \<noteq> []" and "CHR ''/'' \<notin> set (Host h)"
    and "ParseReference L (Host h @ ''/'' @ Path named) (Insecure h) = Inr nr"
    and "resolveReference L rs nr dg = (rs', Inr u)"
    and "trPool rs' (ref_Name nr) = Some t"
    and "getSize L u t = Inr sz"
  shows "resolve_host L rs named dg h = (rs', Inr (nr, u, t, sz))"
  using assms by (simp add: resolve_host_def Let_def)

lemma resolve_host_fail_names_host:
  "resolve_host L rs named dg h = (rs', Inl (fm, args)) \<Longrightarrow> args \<noteq> [] \<and> hd args = ArgS (Host h)"
  by (auto simp: resolve_host_def Let_def split: if_splits sum.splits prod.splits option.splits)

lemma resolve_hosts_append:
  "resolve_hosts L named dg (pre @ post) rs rErr =
     (case resolve_hosts L named dg pre rs rErr of
        (rs1, Inl rErr1) \<Rightarrow> resolve_hosts L named dg post rs1 rErr1
      | (rs1, Inr win) \<Rightarrow> (rs1, Inr win))"
  by (induction pre arbitrary: rs rErr) (auto split: prod.splits sum.splits)

lemma resolve_hosts_contexts:
  "resolve_hosts L named dg hosts rs rErr = (rs', Inl e) \<Longrightarrow>
   map (\<lambda>ctx. hd (snd ctx)) (contexts e)
     = map (\<lambda>ctx. hd (snd ctx)) (contexts rErr) @ map (\<lambda>h. ArgS (Host h)) hosts"
proof (induction hosts arbitrary: rs rErr)
  case Nil
  then show ?case by simp
next
  case (Cons h hosts)
  from Cons.prems obtain rs1 fm args where
    h: "resolve_host L rs named dg h = (rs1, Inl (fm, args))"
    and rest: "resolve_hosts L named dg hosts rs1 (Wrapped rErr fm args) = (rs', Inl e)"
    by (auto split: prod.splits sum.splits)
  from resolve_host_fail_names_host [OF h] Cons.IH [OF rest] show ?case by simp
qed

lemma resolve_hosts_win_first:
  "resolve_hosts L named dg hosts rs rErr = (rs', Inr win) \<Longrightarrow>
   \<exists>pre h post rs1 rErr1. hosts = pre @ h # post
     \<and> resolve_hosts L named dg pre rs rErr = (rs1, Inl rErr1)
     \<and> resolve_host L rs1 named dg h = (rs', Inr win)"
proof (induction hosts arbitrary: rs rErr)
  case Nil
  then show ?case by simp
next
  case (Cons h hosts)
  show ?case
  proof (cases "resolve_host L rs named dg h")
    case (Pair rs1 res)
    show ?thesis
    proof (cases res)
      case (Inl ctx)
      obtain fm args where ctx: "ctx = (fm, args)" by (cases ctx)
      with Cons.prems Pair Inl
      have "resolve_hosts L named dg hosts rs1 (Wrapped rErr fm args) = (rs', Inr win)" by simp
      from Cons.IH [OF this] obtain pre h' post rs2 rErr2 where
        "hosts = pre @ h' # post"
        "resolve_hosts L named dg pre rs1 (Wrapped rErr fm args) = (rs2, Inl rErr2)"
        "resolve_host L rs2 named dg h' = (rs', Inr win)" by blast
      with Pair Inl ctx have "h # hosts = (h # pre) @ h' # post
        \<and> resolve_hosts L named dg (h # pre) rs rErr = (rs2, Inl rErr2)
        \<and> resolve_host L rs2 named dg h' = (rs', Inr win)" by simp
      then show ?thesis by blast
    next
      case (Inr w)
      with Cons.prems Pair have "h # hosts = [] @ h # hosts
        \<and> resolve_hosts L named dg [] rs rErr = (rs, Inl rErr)
        \<and> resolve_host L rs named dg h = (rs', Inr win)" by simp
      then show ?thesis by blast
    qed
  qed
qed

text \<open>
  C5.  Once the reference has been parsed, \<^verbatim>\<open>resolve\<close> goes through the mirrors
  configured for its domain followed by the domain itself.  A host whose name is empty
  or contains \<^verbatim>\<open>/\<close> is skipped, its context being wrapped around the error kept so
  far.  When no host before \<open>h\<close> has won and, for \<open>h\<close>, the reference parses, the
  redirection resolves (which always leaves the transport in the pool) and the size
  probe succeeds, \<^verbatim>\<open>resolve\<close> returns the fetcher with the URL and the size found for
  \<open>h\<close>.  When the loop ends with no winner, \<^verbatim>\<open>resolve\<close> returns the error kept,
  wrapped once more, and that error carries one context per host, each naming its
  host, in the order of the hosts.
\<close>

theorem resolve_first_host_wins:
  assumes "ParseDockerRef L rf = Inr named"
  shows "hosts_of rs named
           = (case config rs (Domain named) of None \<Rightarrow> [] | Some cfg \<Rightarrow> Mirrors cfg)
               @ [\<lparr>Host = Domain named, Insecure = False\<rparr>]
    \<and> (Host h0 = [] \<or> CHR ''/'' \<in> set (Host h0) \<longrightarrow>
         resolve_host L rs0 named dg h0
           = (rs0, Inl (''host %q: mirror must be a domain name'', [ArgS (Host h0)])))
    \<and> (resolveReference L rs1 nr dg = (rs2, Inr u) \<longrightarrow> trPool rs2 (ref_Name nr) \<noteq> None)
    \<and> (hosts_of rs named = pre @ h # post \<longrightarrow>
        resolve_hosts L named dg pre rs (Errorf ''failed to resolve'' []) = (rs1, Inl rErr1) \<longrightarrow>
        Host h \<noteq> [] \<longrightarrow> CHR ''/'' \<notin> set (Host h) \<longrightarrow>
        ParseReference L (Host h @ ''/'' @ Path named) (Insecure h) = Inr nr \<longrightarrow>
        resolveReference L rs1 nr dg = (rs2, Inr u) \<longrightarrow>
        trPool rs2 (ref_Name nr) = Some t \<longrightarrow>
        getSize L u t = Inr sz \<longrightarrow>
        resolve L rs rf dg
          = (rs2, Inr (\<lparr>f_ref = rf, f_digest = dg, f_nref = nr, f_url = u, f_tr = t\<rparr>, sz)))
    \<and> (resolve_hosts L named dg (hosts_of rs named) rs (Errorf ''failed to resolve'' []) = (rs', Inl rErr) \<longrightarrow>
        resolve L rs rf dg = (rs', Inl (Wrapped rErr ''cannot resolve ref %q (%q)'' [ArgS rf, ArgS dg]))
        \<and> map (\<lambda>ctx. hd (snd ctx)) (contexts rErr) = map (\<lambda>h. ArgS (Host h)) (hosts_of rs named))"
proof (intro conjI impI)
  show "hosts_of rs named
           = (case config rs (Domain named) of None \<Rightarrow> [] | Some cfg \<Rightarrow> Mirrors cfg)
               @ [\<lparr>Host = Domain named, Insecure = False\<rparr>]"
    by (simp add: hosts_of_def)
next
  assume "Host h0 = [] \<or> CHR ''/'' \<in> set (Host h0)"
  then show "resolve_host L rs0 named dg h0
           = (rs0, Inl (''host %q: mirror must be a domain name'', [ArgS (Host h0)]))"
    by (rule resolve_host_skip)
next
  assume "resolveReference L rs1 nr dg = (rs2, Inr u)"
  then show "trPool rs2 (ref_Name nr) \<noteq> None" by (rule resolveReference_pool)
next
  assume hs: "hosts_of rs named = pre @ h # post"
    and pre: "resolve_hosts L named dg pre rs (Errorf ''failed to resolve'' []) = (rs1, Inl rErr1)"
    and "Host h \<noteq> []" "CHR ''/'' \<notin> set (Host h)"
    "ParseReference L (Host h @ ''/'' @ Path named) (Insecure h) = Inr nr"
    "resolveReference L rs1 nr dg = (rs2, Inr u)"
    "trPool rs2 (ref_Name nr) = Some t" "getSize L u t = Inr sz"
  then have "resolve_host L rs1 named dg h = (rs2, Inr (nr, u, t, sz))"
    by (simp add: resolve_host_win)
  with pre have "resolve_hosts L named dg (pre @ h # post) rs (Errorf ''failed to resolve'' [])
      = (rs2, Inr (nr, u, t, sz))"
    by (simp add: resolve_hosts_append)
  with hs assms show "resolve L rs rf dg
          = (rs2, Inr (\<lparr>f_ref = rf, f_digest = dg, f_nref = nr, f_url = u, f_tr = t\<rparr>, sz))"
    by (simp add: resolve_def)
next
  assume a: "resolve_hosts L named dg (hosts_of rs named) rs (Errorf ''failed to resolve'' []) = (rs', Inl rErr)"
  with assms show "resolve L rs rf dg = (rs', Inl (Wrapped rErr ''cannot resolve ref %q (%q)'' [ArgS rf, ArgS dg]))"
    by (simp add: resolve_def)
  from resolve_hosts_contexts [OF a]
  show "map (\<lambda>ctx. hd (snd ctx)) (contexts rErr) = map (\<lambda>h. ArgS (Host h)) (hosts_of rs named)"
    by simp
qed


text \<open>
  The mirrors \<^verbatim>\<open>A\<close> and \<^verbatim>\<open>B\<close> for the domain \<^verbatim>\<open>D\<close>: \<^verbatim>\<open>A\<close> answers 500, \<^verbatim>\<open>B\<close>
  wins; with the network down the error names \<^verbatim>\<open>A\<close>, \<^verbatim>\<open>B\<close> and \<^verbatim>\<open>D\<close>.
\<close>

lemmas ex_net_defs =
  ex_lib_def ex_resolver_def ex_down_resolver_def ex_net_def resolve_host_def resolveReference_def
  authnTransport_def redirect_def getSize_def NewRequest_def Header_Set_def Header_Get_def
  hosts_of_def Let_def

lemma ParseInt_1000: "ParseInt ''1000'' = Inr 1000"
  by (simp add: ParseInt_def digit_val_def)

lemma ex_named: "ParseDockerRef ex_lib ''D/repo'' = Inr \<lparr>Domain = ''D'', Path = ''repo''\<rparr>"
  by (simp add: ex_lib_def)

lemma ex_hosts:
  "hosts_of ex_resolver \<lparr>Domain = ''D'', Path = ''repo''\<rparr>
     = [\<lparr>Host = ''A'', Insecure = False\<rparr>] @ \<lparr>Host = ''B'', Insecure = False\<rparr>
         # [\<lparr>Host = ''D'', Insecure = False\<rparr>]"
  by (simp add: ex_net_defs)

lemma ex_A_fails:
  "resolve_hosts ex_lib \<lparr>Domain = ''D'', Path = ''repo''\<rparr> ''dg'' [\<lparr>Host = ''A'', Insecure = False\<rparr>]
     ex_resolver (Errorf ''failed to resolve'' [])
   = (ex_resolver, Inl (Wrapped (Errorf ''failed to resolve'' [])
        ''host %q: failed to resolve ref %q (%q): %v''
        [ArgS ''A'', ArgS ''A/repo'', ArgS ''dg'',
         ArgE (Some (Errorf ''failed to access to %q with code %v''
                 [ArgS ''https://A/v2/repo/blobs/dg'', ArgI 500]))]))"
  by (simp add: ex_net_defs)

lemma ex_B_parse:
  "ParseReference ex_lib (Host \<lparr>Host = ''B'', Insecure = False\<rparr> @ ''/'' @ Path \<lparr>Domain = ''D'', Path = ''repo''\<rparr>)
      (Insecure \<lparr>Host = ''B'', Insecure = False\<rparr>) = Inr ex_reference"
  by (simp add: ex_lib_def ex_reference_def)

lemma ex_B_redirect:
  "resolveReference ex_lib ex_resolver ex_reference ''dg''
     = (ex_resolver\<lparr>trPool := [''B/repo'' \<mapsto> ex_net]\<rparr>, Inr ''https://B/v2/repo/blobs/dg'')"
  by (simp add: ex_net_defs ex_reference_def)

lemma ex_B_size: "getSize ex_lib ''https://B/v2/repo/blobs/dg'' ex_net = Inr 1000"
  by (simp add: ex_net_defs ParseInt_1000)

lemma ex_down_hosts:
  "resolve_hosts ex_lib \<lparr>Domain = ''D'', Path = ''repo''\<rparr> ''dg''
     (hosts_of ex_down_resolver \<lparr>Domain = ''D'', Path = ''repo''\<rparr>) ex_down_resolver
     (Errorf ''failed to resolve'' [])
   = (ex_down_resolver, Inl ex_down_error)"
  by (simp add: ex_net_defs ex_down_error_def ex_down_ctx_def)

theorem resolve_first_host_wins_witness:
  "resolve ex_lib ex_resolver ''D/repo'' ''dg''
     = (ex_resolver\<lparr>trPool := [''B/repo'' \<mapsto> ex_net]\<rparr>,
        Inr (\<lparr>f_ref = ''D/repo'', f_digest = ''dg'', f_nref = ex_reference,
               f_url = ''https://B/v2/repo/blobs/dg'', f_tr = ex_net\<rparr>, 1000))
   \<and> resolve ex_lib ex_down_resolver ''D/repo'' ''dg''
     = (ex_down_resolver,
        Inl (Wrapped ex_down_error ''cannot resolve ref %q (%q)'' [ArgS ''D/repo'', ArgS ''dg'']))
   \<and> map (\<lambda>ctx. hd (snd ctx)) (contexts ex_down_error) = [ArgS ''A'', ArgS ''B'', ArgS ''D'']"
proof -
  have pool: "trPool (ex_resolver\<lparr>trPool := [''B/repo'' \<mapsto> ex_net]\<rparr>) (ref_Name ex_reference) = Some ex_net"
    by (simp add: ex_reference_def)
  have ok: "Host \<lparr>Host = ''B'', Insecure = False\<rparr> \<noteq> []"
    "CHR ''/'' \<notin> set (Host \<lparr>Host = ''B'', Insecure = False\<rparr>)"
    by simp_all
  from resolve_first_host_wins [OF ex_named,
      of ex_resolver _ _ _ ex_resolver ex_reference "ex_resolver\<lparr>trPool := [''B/repo'' \<mapsto> ex_net]\<rparr>"
         "''https://B/v2/repo/blobs/dg''"
         "[\<lparr>Host = ''A'', Insecure = False\<rparr>]" "\<lparr>Host = ''B'', Insecure = False\<rparr>"
         "[\<lparr>Host = ''D'', Insecure = False\<rparr>]" _ ex_net 1000]
    ex_hosts ex_A_fails ex_B_parse ex_B_redirect ex_B_size pool ok
  have win: "resolve ex_lib ex_resolver ''D/repo'' ''dg''
     = (ex_resolver\<lparr>trPool := [''B/repo'' \<mapsto> ex_net]\<rparr>,
        Inr (\<lparr>f_ref = ''D/repo'', f_digest = ''dg'', f_nref = ex_reference,
               f_url = ''https://B/v2/repo/blobs/dg'', f_tr = ex_net\<rparr>, 1000))"
    by blast
  from resolve_first_host_wins [OF ex_named, of ex_down_resolver _ _ _ _ _ _ _ _ _ _ _ _ _ ex_down_resolver ex_down_error]
    ex_down_hosts
  have down: "resolve ex_lib ex_down_resolver ''D/repo'' ''dg''
     = (ex_down_resolver,
        Inl (Wrapped ex_down_error ''cannot resolve ref %q (%q)'' [ArgS ''D/repo'', ArgS ''dg'']))
     \<and> map (\<lambda>ctx. hd (snd ctx)) (contexts ex_down_error)
        = map (\<lambda>h. ArgS (Host h)) (hosts_of ex_down_resolver \<lparr>Domain = ''D'', Path = ''repo''\<rparr>)"
    by blast
  have "map (\<lambda>h. ArgS (Host h)) (hosts_of ex_down_resolver \<lparr>Domain = ''D'', Path = ''repo''\<rparr>)
      = [ArgS ''A'', ArgS ''B'', ArgS ''D'']"
    by (simp add: ex_net_defs)
  with win down show ?thesis by simp
qed

subsection \<open>\<^verbatim>\<open>Refresh\<close>\<close>

text \<open>
  C4.  For every blob whose re-resolution succeeds: if the new size differs from the
  size recorded in the blob, \<^verbatim>\<open>Refresh\<close> returns the error about the size and the
  blob is as it was, fetcher and \<^verbatim>\<open>lastCheck\<close> included; if the sizes are equal, it
  returns nil, the blob has the new fetcher and \<^verbatim>\<open>lastCheck\<close> is the current time.
\<close>

theorem Refresh_checks_size:
  assumes "resolve L rs (f_ref (fetcher b)) (f_digest (fetcher b)) = (rs', Inr (new, newSize))"
  shows "(newSize \<noteq> size' b \<longrightarrow>
            Refresh L rs now (ptr_blob b)
              = (Some (Errorf ''Invalid size of new blob %d; want %d'' [ArgI newSize, ArgI (size' b)]),
                 ptr_blob b, rs'))
       \<and> (newSize = size' b \<longrightarrow>
            Refresh L rs now (ptr_blob b)
              = (None, ptr_blob (b\<lparr>fetcher := new, lastCheck := now\<rparr>), rs'))"
  using assms by (simp add: Refresh_def)


lemma ex_resolve:
  "resolve ex_lib ex_resolver ''D/repo'' ''dg''
     = (ex_resolver\<lparr>trPool := [''B/repo'' \<mapsto> ex_net]\<rparr>, Inr (ex_fetcher, 1000))"
  by (simp add: resolve_def ex_named ex_net_defs ParseInt_1000 ex_fetcher_def ex_reference_def)

theorem Refresh_checks_size_witness:
  "Refresh ex_lib ex_resolver 77 (ptr_blob ex_blob)
     = (None, ptr_blob (ex_blob\<lparr>fetcher := ex_fetcher, lastCheck := 77\<rparr>),
        ex_resolver\<lparr>trPool := [''B/repo'' \<mapsto> ex_net]\<rparr>)
   \<and> Refresh ex_lib ex_resolver 77 (ptr_blob (ex_blob\<lparr>size' := 999\<rparr>))
     = (Some (Errorf ''Invalid size of new blob %d; want %d'' [ArgI 1000, ArgI 999]),
        ptr_blob (ex_blob\<lparr>size' := 999\<rparr>), ex_resolver\<lparr>trPool := [''B/repo'' \<mapsto> ex_net]\<rparr>)"
proof -
  have a: "resolve ex_lib ex_resolver (f_ref (fetcher ex_blob)) (f_digest (fetcher ex_blob))
     = (ex_resolver\<lparr>trPool := [''B/repo'' \<mapsto> ex_net]\<rparr>, Inr (ex_fetcher, 1000))"
    by (simp add: ex_blob_def ex_fetcher_def ex_resolve [unfolded ex_fetcher_def])
  have b: "resolve ex_lib ex_resolver (f_ref (fetcher (ex_blob\<lparr>size' := 999\<rparr>)))
       (f_digest (fetcher (ex_blob\<lparr>size' := 999\<rparr>)))
     = (ex_resolver\<lparr>trPool := [''B/repo'' \<mapsto> ex_net]\<rparr>, Inr (ex_fetcher, 1000))"
    using a by simp
  have c: "size' ex_blob = 1000" "size' (ex_blob\<lparr>size' := 999\<rparr>) = 999"
    by (simp_all add: ex_blob_def)
  from Refresh_checks_size [OF a, of 77] Refresh_checks_size [OF b, of 77] c
  show ?thesis by simp
qed

section \<open>Properties of the prefetch\<close>

subsection \<open>The inner loop of \<^verbatim>\<open>CacheTarGzWithReader\<close>\<close>

text \<open>
  The inner loop leaves the entries still to come alone, so the loop over the entries
  never needs more iterations than there are entries, plus the one that finds the end:
  its counter in \<open>CacheTarGzWithReader\<close> is never what ends it.
\<close>

lemma cache_chunk_body_entries:
  "cache_chunk_body H gr_r h fe (nr, tr0, c) = ChunksContinue (nr', tr', c') \<Longrightarrow> entries tr' = entries tr0"
  by (auto simp: cache_chunk_body_def Let_def split: option.splits if_splits prod.splits)

lemma cache_chunks_entries:
  "cache_chunks fuel H gr_r h fe (nr, tr0, c) = Some (Inr (tr', c')) \<Longrightarrow> entries tr' = entries tr0"
proof (induction fuel arbitrary: nr tr0 c)
  case 0
  then show ?case by (auto simp: cache_chunks.simps split: if_splits)
next
  case (Suc fuel)
  show ?case
  proof (cases "nr < Size h")
    case False
    with Suc.prems show ?thesis by (simp add: cache_chunks.simps)
  next
    case True
    show ?thesis
    proof (cases "cache_chunk_body H gr_r h fe (nr, tr0, c)")
      case ChunksBreak
      with True Suc.prems show ?thesis by (simp add: cache_chunks.simps)
    next
      case (ChunksContinue s')
      obtain nr1 tr1 c1 where s': "s' = (nr1, tr1, c1)" by (cases s')
      with ChunksContinue True Suc.prems
      have "cache_chunks fuel H gr_r h fe (nr1, tr1, c1) = Some (Inr (tr', c'))"
        by (simp add: cache_chunks.simps)
      from Suc.IH [OF this] cache_chunk_body_entries [OF ChunksContinue [unfolded s']]
      show ?thesis by simp
    next
      case (ChunksReturn res)
      with True Suc.prems show ?thesis by (simp add: cache_chunks.simps)
    qed
  qed
qed

lemma cache_entries_counter:
  "length (entries tr0) < k \<Longrightarrow> length (entries tr0) < k' \<Longrightarrow>
   cache_entries k fuel H gr_r tr0 c = cache_entries k' fuel H gr_r tr0 c"
proof (induction k arbitrary: k' tr0 c)
  case 0
  then show ?case by simp
next
  case (Suc k)
  from Suc.prems(2) obtain j where k': "k' = Suc j" by (cases k') auto
  show ?case
  proof (cases "entries tr0")
    case Nil
    then show ?thesis by (simp add: k' Next_def)
  next
    case (Cons x es)
    obtain h content where x: "x = (h, content)" by (cases x)
    let ?tr = "tr0\<lparr>entries := es, cur := content\<rparr>"
    from Cons Suc.prems k' have len: "length (entries ?tr) < k" "length (entries ?tr) < j" by simp_all
    have nxt: "Next tr0 = Inr (h, ?tr)" by (simp add: Next_def Cons x)
    have rec: "cache_entries k fuel H gr_r ?tr c = cache_entries j fuel H gr_r ?tr c"
      by (rule Suc.IH [OF len])
    have rec': "cache_entries k fuel H gr_r tr'' c'' = cache_entries j fuel H gr_r tr'' c''"
      if "cache_chunks fuel H gr_r h fe (0, ?tr, c) = Some (Inr (tr'', c''))" for fe tr'' c''
    proof -
      from cache_chunks_entries [OF that] have "entries tr'' = es" by simp
      with len show ?thesis by (intro Suc.IH) simp_all
    qed
    show ?thesis
      by (auto simp: k' nxt rec rec' split: option.splits sum.splits prod.splits)
  qed
qed

lemma ReadFull_enough:
  "n \<le> length (avail s) \<Longrightarrow> ReadFull s n = (take n (avail s), None, s\<lparr>avail := drop n (avail s)\<rparr>)"
  by (simp add: ReadFull_def)

lemma chunk_body_hit:
  assumes "ChunkEntryForOffset gr_r (Name h) nr = Some ce"
    and "cache_probe c (genID H (Digest fe) (ChunkOffset ce) (ChunkSize ce)) (ChunkSize ce) = Some d"
  shows "cache_chunk_body H gr_r h fe (nr, tr0, c) = ChunksContinue (int64 (nr + ChunkSize ce), tr0, c)"
  using assms by (simp add: cache_chunk_body_def Let_def)

lemma chunk_body_miss:
  assumes "ChunkEntryForOffset gr_r (Name h) nr = Some ce"
    and "cache_probe c (genID H (Digest fe) (ChunkOffset ce) (ChunkSize ce)) (ChunkSize ce) = None"
    and "nr = ChunkOffset ce" and "0 \<le> ChunkSize ce"
    and "nat (ChunkSize ce) \<le> length (avail (cur tr0))"
  shows "cache_chunk_body H gr_r h fe (nr, tr0, c)
     = ChunksContinue (int64 (nr + ChunkSize ce),
         tr0\<lparr>cur := (cur tr0)\<lparr>avail := drop (nat (ChunkSize ce)) (avail (cur tr0))\<rparr>\<rparr>,
         Add c (genID H (Digest fe) (ChunkOffset ce) (ChunkSize ce))
           (take (nat (ChunkSize ce)) (avail (cur tr0))))"
  using assms by (simp add: cache_chunk_body_def Let_def ReadFull_enough)

text \<open>
  C9.  In the loop of \<^verbatim>\<open>CacheTarGzWithReader\<close> over the chunks of a file entry, a chunk
  whose cache probe hits moves the offset in the file on by \<open>ChunkSize\<close> and leaves the
  tar reader as it is; a chunk whose probe misses (at its \<open>ChunkOffset\<close>, with the bytes
  there) takes its \<open>ChunkSize\<close> bytes from the front of what the tar reader has left.
  So after a hit the next missing chunk is filled from where the stream stood before the
  hit, which is where the miss before it, or the start of the entry, left it.
\<close>

theorem CacheTarGz_hit_consumes_nothing:
  assumes "ChunkEntryForOffset gr_r (Name h) nr = Some ce"
  shows
    "(cache_probe c (genID H (Digest fe) (ChunkOffset ce) (ChunkSize ce)) (ChunkSize ce) = Some d \<longrightarrow>
        cache_chunk_body H gr_r h fe (nr, tr0, c) = ChunksContinue (int64 (nr + ChunkSize ce), tr0, c))
   \<and> (cache_probe c (genID H (Digest fe) (ChunkOffset ce) (ChunkSize ce)) (ChunkSize ce) = None \<longrightarrow>
        nr = ChunkOffset ce \<longrightarrow> 0 \<le> ChunkSize ce \<longrightarrow> nat (ChunkSize ce) \<le> length (avail (cur tr0)) \<longrightarrow>
        cache_chunk_body H gr_r h fe (nr, tr0, c)
          = ChunksContinue (int64 (nr + ChunkSize ce),
              tr0\<lparr>cur := (cur tr0)\<lparr>avail := drop (nat (ChunkSize ce)) (avail (cur tr0))\<rparr>\<rparr>,
              Add c (genID H (Digest fe) (ChunkOffset ce) (ChunkSize ce))
                (take (nat (ChunkSize ce)) (avail (cur tr0)))))
   \<and> (cache_probe c (genID H (Digest fe) (ChunkOffset ce) (ChunkSize ce)) (ChunkSize ce) = Some d \<longrightarrow>
        nr < Size h \<longrightarrow> int64 (nr + ChunkSize ce) < Size h \<longrightarrow>
        ChunkEntryForOffset gr_r (Name h) (int64 (nr + ChunkSize ce)) = Some ce' \<longrightarrow>
        cache_probe c (genID H (Digest fe) (ChunkOffset ce') (ChunkSize ce')) (ChunkSize ce') = None \<longrightarrow>
        int64 (nr + ChunkSize ce) = ChunkOffset ce' \<longrightarrow> 0 \<le> ChunkSize ce' \<longrightarrow>
        nat (ChunkSize ce') \<le> length (avail (cur tr0)) \<longrightarrow>
        cache_chunks (Suc (Suc fuel)) H gr_r h fe (nr, tr0, c)
          = cache_chunks fuel H gr_r h fe
              (int64 (int64 (nr + ChunkSize ce) + ChunkSize ce'),
               tr0\<lparr>cur := (cur tr0)\<lparr>avail := drop (nat (ChunkSize ce')) (avail (cur tr0))\<rparr>\<rparr>,
               Add c (genID H (Digest fe) (ChunkOffset ce') (ChunkSize ce'))
                 (take (nat (ChunkSize ce')) (avail (cur tr0)))))"
proof (intro conjI impI)
  assume "cache_probe c (genID H (Digest fe) (ChunkOffset ce) (ChunkSize ce)) (ChunkSize ce) = Some d"
  with assms show "cache_chunk_body H gr_r h fe (nr, tr0, c) = ChunksContinue (int64 (nr + ChunkSize ce), tr0, c)"
    by (rule chunk_body_hit)
next
  assume "cache_probe c (genID H (Digest fe) (ChunkOffset ce) (ChunkSize ce)) (ChunkSize ce) = None"
    "nr = ChunkOffset ce" "0 \<le> ChunkSize ce" "nat (ChunkSize ce) \<le> length (avail (cur tr0))"
  with assms show "cache_chunk_body H gr_r h fe (nr, tr0, c)
          = ChunksContinue (int64 (nr + ChunkSize ce),
              tr0\<lparr>cur := (cur tr0)\<lparr>avail := drop (nat (ChunkSize ce)) (avail (cur tr0))\<rparr>\<rparr>,
              Add c (genID H (Digest fe) (ChunkOffset ce) (ChunkSize ce))
                (take (nat (ChunkSize ce)) (avail (cur tr0))))"
    by (rule chunk_body_miss)
next
  assume hit: "cache_probe c (genID H (Digest fe) (ChunkOffset ce) (ChunkSize ce)) (ChunkSize ce) = Some d"
    and lt: "nr < Size h" "int64 (nr + ChunkSize ce) < Size h"
    and ce': "ChunkEntryForOffset gr_r (Name h) (int64 (nr + ChunkSize ce)) = Some ce'"
    and miss: "cache_probe c (genID H (Digest fe) (ChunkOffset ce') (ChunkSize ce')) (ChunkSize ce') = None"
    and rest: "int64 (nr + ChunkSize ce) = ChunkOffset ce'" "0 \<le> ChunkSize ce'"
      "nat (ChunkSize ce') \<le> length (avail (cur tr0))"
  have "cache_chunks (Suc (Suc fuel)) H gr_r h fe (nr, tr0, c)
      = cache_chunks (Suc fuel) H gr_r h fe (int64 (nr + ChunkSize ce), tr0, c)"
    using lt(1) chunk_body_hit [OF assms hit] by (simp add: cache_chunks.simps)
  also have "\<dots> = cache_chunks fuel H gr_r h fe
              (int64 (int64 (nr + ChunkSize ce) + ChunkSize ce'),
               tr0\<lparr>cur := (cur tr0)\<lparr>avail := drop (nat (ChunkSize ce')) (avail (cur tr0))\<rparr>\<rparr>,
               Add c (genID H (Digest fe) (ChunkOffset ce') (ChunkSize ce'))
                 (take (nat (ChunkSize ce')) (avail (cur tr0))))"
    using lt(2) chunk_body_miss [OF ce' miss rest] by (simp add: cache_chunks.simps)
  finally show "cache_chunks (Suc (Suc fuel)) H gr_r h fe (nr, tr0, c)
          = cache_chunks fuel H gr_r h fe
              (int64 (int64 (nr + ChunkSize ce) + ChunkSize ce'),
               tr0\<lparr>cur := (cur tr0)\<lparr>avail := drop (nat (ChunkSize ce')) (avail (cur tr0))\<rparr>\<rparr>,
               Add c (genID H (Digest fe) (ChunkOffset ce') (ChunkSize ce'))
                 (take (nat (ChunkSize ce')) (avail (cur tr0))))" .
qed

text \<open>
  The file \<^verbatim>\<open>b\<close> with its first chunk cached: the second chunk gets the first four
  bytes of the entry.  With nothing cached each chunk gets its own bytes.
\<close>

lemmas ex_tar_defs =
  ex_tar_def ex_gr_r_def ex_toc_def cache_chunk_body_def cache_chunks.simps Next_def ReadFull_def
  TrimSuffix_def PrefetchLandmark_def NoPrefetchLandmark_def TOCTarName_def
  cache_probe_def Fetch_def Add_def genID_ex int64_small Let_def

lemma ex_CacheTarGz_poisons:
  "CacheTarGzWithReader 3 ex_hash (\<lambda>bs. Inr ex_tar) ex_gr_r [] [''d-0-4'' \<mapsto> [1, 2, 3, 4]]
     = Some (Result (None, [''d-0-4'' \<mapsto> [1, 2, 3, 4], ''d-4-4'' \<mapsto> [1, 2, 3, 4]]))"
  by (simp add: CacheTarGzWithReader_def ex_tar_defs)

lemma ex_CacheTarGz_empty:
  "CacheTarGzWithReader 3 ex_hash (\<lambda>bs. Inr ex_tar) ex_gr_r [] Map.empty
     = Some (Result (None, [''d-0-4'' \<mapsto> [1, 2, 3, 4], ''d-4-4'' \<mapsto> [5, 6, 7, 8]]))"
  by (simp add: CacheTarGzWithReader_def ex_tar_defs)


theorem CacheTarGz_hit_consumes_nothing_witness:
  "cache_chunks (Suc (Suc 1)) ex_hash ex_gr_r \<lparr>Name = ''b'', Size = 8\<rparr> (ex_chunk 0)
      (0, ex_tar_b, [''d-0-4'' \<mapsto> [1, 2, 3, 4]])
     = Some (Inr (ex_tar_b\<lparr>cur := \<lparr>avail = [5, 6, 7, 8], at_end = EOF\<rparr>\<rparr>,
                  [''d-0-4'' \<mapsto> [1, 2, 3, 4], ''d-4-4'' \<mapsto> [1, 2, 3, 4]]))"
proof -
  let ?h = "\<lparr>Name = ''b'', Size = 8\<rparr>"
  let ?c = "[''d-0-4'' \<mapsto> [1, 2, 3, 4 :: byte]]"
  have toc0: "ChunkEntryForOffset ex_gr_r (Name ?h) 0 = Some (ex_chunk 0)"
    by (simp add: ex_gr_r_def ex_toc_def ex_chunk_def)
  have hit: "cache_probe ?c (genID ex_hash (Digest (ex_chunk 0)) (ChunkOffset (ex_chunk 0))
        (ChunkSize (ex_chunk 0))) (ChunkSize (ex_chunk 0)) = Some [1, 2, 3, 4]"
    by (simp add: ex_chunk_def genID_ex cache_probe_def Fetch_def)
  have lt: "(0::int) < Size ?h" "int64 (0 + ChunkSize (ex_chunk 0)) < Size ?h"
    by (simp_all add: ex_chunk_def int64_small)
  have toc4: "ChunkEntryForOffset ex_gr_r (Name ?h) (int64 (0 + ChunkSize (ex_chunk 0))) = Some (ex_chunk 4)"
    by (simp add: ex_gr_r_def ex_toc_def ex_chunk_def int64_small)
  have miss: "cache_probe ?c (genID ex_hash (Digest (ex_chunk 0)) (ChunkOffset (ex_chunk 4))
        (ChunkSize (ex_chunk 4))) (ChunkSize (ex_chunk 4)) = None"
    by (simp add: ex_chunk_def genID_ex cache_probe_def Fetch_def)
  have rest: "int64 (0 + ChunkSize (ex_chunk 0)) = ChunkOffset (ex_chunk 4)" "0 \<le> ChunkSize (ex_chunk 4)"
      "nat (ChunkSize (ex_chunk 4)) \<le> length (avail (cur ex_tar_b))"
    by (simp_all add: ex_chunk_def int64_small ex_tar_b_def)
  from CacheTarGz_hit_consumes_nothing [OF toc0, of ?c ex_hash "ex_chunk 0" "[1, 2, 3, 4]" ex_tar_b "ex_chunk 4" 1]
    hit lt toc4 miss rest
  have "cache_chunks (Suc (Suc 1)) ex_hash ex_gr_r ?h (ex_chunk 0) (0, ex_tar_b, ?c)
      = cache_chunks 1 ex_hash ex_gr_r ?h (ex_chunk 0)
          (int64 (int64 (0 + ChunkSize (ex_chunk 0)) + ChunkSize (ex_chunk 4)),
           ex_tar_b\<lparr>cur := (cur ex_tar_b)\<lparr>avail := drop (nat (ChunkSize (ex_chunk 4))) (avail (cur ex_tar_b))\<rparr>\<rparr>,
           Add ?c (genID ex_hash (Digest (ex_chunk 0)) (ChunkOffset (ex_chunk 4)) (ChunkSize (ex_chunk 4)))
             (take (nat (ChunkSize (ex_chunk 4))) (avail (cur ex_tar_b))))"
    by blast
  then show ?thesis
    by (simp add: ex_chunk_def int64_small genID_ex ex_tar_b_def Add_def cache_chunks.simps)
qed


subsection \<open>The landmarks\<close>

text \<open>
  C8.  \<^verbatim>\<open>PrefetchWithReader\<close> on its landmark cases.  With \<^verbatim>\<open>.no.prefetch.landmark\<close>
  in the TOC it returns nil and neither the section reader nor the cache has changed.
  Otherwise, with \<^verbatim>\<open>.prefetch.landmark\<close> in the TOC, it fails when the offset of that
  entry exceeds the size of the layer, and else goes on with that offset in the place
  of \<open>prefetchSize\<close>.  With neither landmark, a \<open>prefetchSize\<close> above the size of the
  layer is replaced by that size, and any other is kept.
\<close>

theorem PrefetchWithReader_landmarks:
  "(Lookup gr_r NoPrefetchLandmark = Some e0 \<longrightarrow>
      PrefetchWithReader fuel H open_targz gr_r sr prefetchSize c = Some (Result (None, sr, c), False))
   \<and> (Lookup gr_r NoPrefetchLandmark = None \<longrightarrow> Lookup gr_r PrefetchLandmark = Some e \<longrightarrow>
        (sr_Size sr < Offset e \<longrightarrow>
           PrefetchWithReader fuel H open_targz gr_r sr prefetchSize c
             = Some (Result (Some (Errorf ''invalid landmark offset %d is larger than layer size %d''
                                    [ArgI (Offset e), ArgI (sr_Size sr)]), sr, c), False))
        \<and> (Offset e \<le> sr_Size sr \<longrightarrow>
           PrefetchWithReader fuel H open_targz gr_r sr prefetchSize c
             = map_option (\<lambda>res. (res, False)) (prefetch_fetch fuel H open_targz gr_r sr (Offset e) c)))
   \<and> (Lookup gr_r NoPrefetchLandmark = None \<longrightarrow> Lookup gr_r PrefetchLandmark = None \<longrightarrow>
        (sr_Size sr < prefetchSize \<longrightarrow>
           PrefetchWithReader fuel H open_targz gr_r sr prefetchSize c
             = map_option (\<lambda>res. (res, False)) (prefetch_fetch fuel H open_targz gr_r sr (sr_Size sr) c))
        \<and> (prefetchSize \<le> sr_Size sr \<longrightarrow>
           PrefetchWithReader fuel H open_targz gr_r sr prefetchSize c
             = map_option (\<lambda>res. (res, False)) (prefetch_fetch fuel H open_targz gr_r sr prefetchSize c)))"
  by (auto simp: PrefetchWithReader_def prefetch_plan_def split: option.splits)

lemma ex_Lookup:
  "Lookup ex_no_prefetch_r NoPrefetchLandmark = Some \<lparr>Digest = [], Offset = 40, ChunkOffset = 0, ChunkSize = 0\<rparr>"
  "Lookup (ex_landmark_r off) NoPrefetchLandmark = None"
  "Lookup (ex_landmark_r off) PrefetchLandmark = Some \<lparr>Digest = [], Offset = off, ChunkOffset = 0, ChunkSize = 0\<rparr>"
  "Lookup ex_gr_r NoPrefetchLandmark = None"
  "Lookup ex_gr_r PrefetchLandmark = None"
  by (simp_all add: ex_no_prefetch_r_def ex_landmark_r_def ex_gr_r_def NoPrefetchLandmark_def PrefetchLandmark_def)

lemma ex_landmark_r_simps:
  "ChunkEntryForOffset (ex_landmark_r off) = ex_toc"
  "Lookup (ex_landmark_r off) ''b'' = Some \<lparr>Digest = ''d'', Offset = 0, ChunkOffset = 0, ChunkSize = 4\<rparr>"
  by (simp_all add: ex_landmark_r_def ex_gr_r_def PrefetchLandmark_def)

lemma ex_prefetch_fetch:
  "prefetch_fetch 3 ex_hash (\<lambda>bs. Inr ex_tar) (ex_landmark_r 8) ex_layer 8 Map.empty
     = Some (Result (None, ex_layer\<lparr>sr_stream := \<lparr>avail = replicate 92 9, at_end = EOF\<rparr>\<rparr>,
                     [''d-0-4'' \<mapsto> [1, 2, 3, 4], ''d-4-4'' \<mapsto> [5, 6, 7, 8]]))"
  by (simp add: prefetch_fetch_def CacheTarGzWithReader_def ex_layer_def ex_landmark_r_simps
      ex_tar_def ex_toc_def cache_chunk_body_def cache_chunks.simps Next_def ReadFull_def
      TrimSuffix_def PrefetchLandmark_def NoPrefetchLandmark_def TOCTarName_def
      cache_probe_def Fetch_def Add_def genID_ex int64_small Let_def Wrap_def)

theorem PrefetchWithReader_landmarks_witness:
  "PrefetchWithReader 3 ex_hash (\<lambda>bs. Inr ex_tar) ex_no_prefetch_r ex_layer 50 Map.empty
     = Some (Result (None, ex_layer, Map.empty), False)
   \<and> PrefetchWithReader 3 ex_hash (\<lambda>bs. Inr ex_tar) (ex_landmark_r 120) ex_layer 50 Map.empty
     = Some (Result (Some (Errorf ''invalid landmark offset %d is larger than layer size %d''
                            [ArgI 120, ArgI 100]), ex_layer, Map.empty), False)
   \<and> PrefetchWithReader 3 ex_hash (\<lambda>bs. Inr ex_tar) (ex_landmark_r 8) ex_layer 50 Map.empty
     = Some (Result (None, ex_layer\<lparr>sr_stream := \<lparr>avail = replicate 92 9, at_end = EOF\<rparr>\<rparr>,
                     [''d-0-4'' \<mapsto> [1, 2, 3, 4], ''d-4-4'' \<mapsto> [5, 6, 7, 8]]), False)
   \<and> PrefetchWithReader 3 ex_hash (\<lambda>bs. Inr ex_tar) ex_gr_r ex_layer 500 Map.empty
     = map_option (\<lambda>res. (res, False))
         (prefetch_fetch 3 ex_hash (\<lambda>bs. Inr ex_tar) ex_gr_r ex_layer 100 Map.empty)"
proof -
  have sz: "sr_Size ex_layer = 100" by (simp add: ex_layer_def)
  from PrefetchWithReader_landmarks [of ex_no_prefetch_r _ 3 ex_hash "\<lambda>bs. Inr ex_tar" ex_layer 50 Map.empty]
    ex_Lookup(1)
  have a: "PrefetchWithReader 3 ex_hash (\<lambda>bs. Inr ex_tar) ex_no_prefetch_r ex_layer 50 Map.empty
     = Some (Result (None, ex_layer, Map.empty), False)"
    by blast
  from PrefetchWithReader_landmarks [of "ex_landmark_r 120" _ 3 ex_hash "\<lambda>bs. Inr ex_tar" ex_layer 50 Map.empty
      "\<lparr>Digest = [], Offset = 120, ChunkOffset = 0, ChunkSize = 0\<rparr>"]
    ex_Lookup(2,3) [of 120] sz
  have b: "PrefetchWithReader 3 ex_hash (\<lambda>bs. Inr ex_tar) (ex_landmark_r 120) ex_layer 50 Map.empty
     = Some (Result (Some (Errorf ''invalid landmark offset %d is larger than layer size %d''
                            [ArgI 120, ArgI 100]), ex_layer, Map.empty), False)"
    by simp
  from PrefetchWithReader_landmarks [of "ex_landmark_r 8" _ 3 ex_hash "\<lambda>bs. Inr ex_tar" ex_layer 50 Map.empty
      "\<lparr>Digest = [], Offset = 8, ChunkOffset = 0, ChunkSize = 0\<rparr>"]
    ex_Lookup(2,3) [of 8] sz
  have c: "PrefetchWithReader 3 ex_hash (\<lambda>bs. Inr ex_tar) (ex_landmark_r 8) ex_layer 50 Map.empty
     = map_option (\<lambda>res. (res, False))
         (prefetch_fetch 3 ex_hash (\<lambda>bs. Inr ex_tar) (ex_landmark_r 8) ex_layer 8 Map.empty)"
    by simp
  from PrefetchWithReader_landmarks [of ex_gr_r _ 3 ex_hash "\<lambda>bs. Inr ex_tar" ex_layer 500 Map.empty]
    ex_Lookup(4,5) sz
  have d: "PrefetchWithReader 3 ex_hash (\<lambda>bs. Inr ex_tar) ex_gr_r ex_layer 500 Map.empty
     = map_option (\<lambda>res. (res, False))
         (prefetch_fetch 3 ex_hash (\<lambda>bs. Inr ex_tar) ex_gr_r ex_layer 100 Map.empty)"
    by simp
  from a b c d show ?thesis by (simp add: ex_prefetch_fetch)
qed

end
